theory Spec2Isabelle
  imports Main "HOL-Library.Word"
begin

unbundle bit_operations_syntax

section \<open>The lowRISC Ethernet driver \<^verbatim>\<open>if_lre.c\<close>\<close>

text \<open>
  The development embeds the data path of \<^verbatim>\<open>sys/dev/lowrisc/ether/if_lre.c\<close>:
  \<^verbatim>\<open>lre_init\<close>, \<^verbatim>\<open>lre_transmit\<close>, \<^verbatim>\<open>lre_rx_thread\<close> and the MAC address assembly of
  \<^verbatim>\<open>lre_attach\<close>. The driver talks to three things it does not own: the device registers,
  the mbuf allocator and the network stack. Every such interaction is recorded, in program
  order, as an event of a trace; what the device and the allocator answer is given by an
  environment that may depend on the whole history so far.
\<close>

subsection \<open>Constants of headers that the driver includes\<close>

text \<open>
  The register map \<^verbatim>\<open>lre_reg.h\<close> and the kernel headers are not part of the embedded
  file, so every macro the driver uses from them is a field of a parameter record. Offsets
  and masks are non-negative \<^verbatim>\<open>int\<close> constants in C; they are kept as 32-bit values.
  \<^verbatim>\<open>LOWRISC_NET_POLL\<close> is the preprocessor switch of the polling variant.
\<close>

record lre_param =
  MACLO_OFFSET :: "32 word"
  MACHI_OFFSET :: "32 word"
  TPLR_OFFSET :: "32 word"
  RSR_OFFSET :: "32 word"
  RBAD_OFFSET :: "32 word"
  RPLR_OFFSET :: "32 word"
  TXBUFF_OFFSET :: "32 word"
  RXBUFF_OFFSET :: "32 word"
  MACHI_MACADDR_MASK :: "32 word"
  MACHI_IRQ_EN :: "32 word"
  RSR_RECV_FIRST_MASK :: "32 word"
  RSR_RECV_DONE_MASK :: "32 word"
  RPLR_LENGTH_MASK :: "32 word"
  MCLBYTES :: "32 word"
  ETHER_ALIGN :: "32 word"
  IFCAP_RXCSUM :: "32 word"
  IFF_DRV_RUNNING :: "32 word"
  LOWRISC_NET_POLL :: bool

subsection \<open>Buffers, events, environment and driver state\<close>

datatype ifnet_ptr = NULL_ifp | SC_ifp

text \<open>
  An mbuf with its storage, byte by byte. \<open>m_ext_buf\<close> holds the bytes of the buffer the
  mbuf owns (a cluster of \<^verbatim>\<open>MCLBYTES\<close> bytes when it comes from \<^verbatim>\<open>m_getcl\<close>); its length is
  the size of the buffer. \<open>m_after\<close> holds the bytes of the memory that follows the buffer,
  which is not the mbuf's: C does not stop an access that runs past the end of the buffer,
  it lands there. \<open>m_data\<close> is the byte offset of the data pointer from the start of the
  buffer. The lengths are C \<^verbatim>\<open>int\<close>s of 32 bits.
\<close>

record mbuf =
  m_data :: nat
  m_len :: "32 word"
  m_pkthdr_len :: "32 word"
  m_pkthdr_rcvif :: ifnet_ptr
  m_ext_buf :: "8 word list"
  m_after :: "nat \<Rightarrow> 8 word"

datatype ift_counter =
  IFCOUNTER_IPACKETS | IFCOUNTER_IERRORS | IFCOUNTER_OPACKETS | IFCOUNTER_OBYTES
  | IFCOUNTER_IQDROPS

datatype event =
    RegRead "32 word" "64 word"
  | RegWrite "32 word" "64 word"
  | Getcl bool
  | IfInput mbuf
  | BpfMtap mbuf
  | Freem mbuf
  | DevPrintf string

text \<open>
  The environment: \<open>bus_read_8 E h off\<close> is the value the device returns for a read of the
  register at \<open>off\<close> after the history \<open>h\<close>, and \<open>m_getcl E h\<close> is the cluster mbuf the
  allocator hands out after \<open>h\<close>, or \<open>None\<close> for \<^verbatim>\<open>NULL\<close>.
\<close>

record lre_env =
  bus_read_8 :: "event list \<Rightarrow> 32 word \<Rightarrow> 64 word"
  m_getcl :: "event list \<Rightarrow> mbuf option"

text \<open>
  The softc and the fields of its \<^verbatim>\<open>ifnet\<close> that the data path touches, together with the
  trace of everything done so far.
\<close>

record lre_softc =
  if_drv_flags :: "32 word"
  sc_cap :: "32 word"
  if_counters :: "ift_counter \<Rightarrow> 64 word"
  trace :: "event list"

definition emit :: "event \<Rightarrow> lre_softc \<Rightarrow> lre_softc" where
  "emit e sc = sc\<lparr>trace := trace sc @ [e]\<rparr>"

definition GETREG :: "lre_env \<Rightarrow> lre_softc \<Rightarrow> 32 word \<Rightarrow> 64 word \<times> lre_softc" where
  "GETREG E sc off = (let v = bus_read_8 E (trace sc) off in (v, emit (RegRead off v) sc))"

definition SETREG :: "lre_softc \<Rightarrow> 32 word \<Rightarrow> 64 word \<Rightarrow> lre_softc" where
  "SETREG sc off v = emit (RegWrite off v) sc"

definition if_inc_counter :: "lre_softc \<Rightarrow> ift_counter \<Rightarrow> 64 word \<Rightarrow> lre_softc" where
  "if_inc_counter sc c n = sc\<lparr>if_counters := (if_counters sc)(c := if_counters sc c + n)\<rparr>"

definition device_printf :: "lre_softc \<Rightarrow> string \<Rightarrow> lre_softc" where
  "device_printf sc msg = emit (DevPrintf msg) sc"

definition m_freem :: "lre_softc \<Rightarrow> mbuf \<Rightarrow> lre_softc" where
  "m_freem sc m = emit (Freem m) sc"

text \<open>
  The byte at offset \<open>a\<close> from the start of the buffer, read and written: inside the buffer
  when \<open>a\<close> is below its size, in the memory after it otherwise.
\<close>

definition byte_get :: "mbuf \<Rightarrow> nat \<Rightarrow> 8 word" where
  "byte_get m a =
     (if a < length (m_ext_buf m) then m_ext_buf m ! a
      else m_after m (a - length (m_ext_buf m)))"

definition byte_set :: "mbuf \<Rightarrow> nat \<Rightarrow> 8 word \<Rightarrow> mbuf" where
  "byte_set m a b =
     (if a < length (m_ext_buf m) then m\<lparr>m_ext_buf := (m_ext_buf m)[a := b]\<rparr>
      else m\<lparr>m_after := (m_after m)(a - length (m_ext_buf m) := b)\<rparr>)"

text \<open>
  \<^verbatim>\<open>alloc[k]\<close> with \<^verbatim>\<open>alloc = (uint64_t *)(m->m_data)\<close>, read and written: the eight bytes
  from offset \<open>m_data + 8 * k\<close> on, least significant byte first (RISC-V is little-endian).
  Both loops of the driver count \<open>i\<close> up from 0, so the index \<open>k = i >> 3\<close> is never
  negative where they use it. Nothing keeps the eight bytes inside the buffer.
\<close>

definition le_byte :: "64 word \<Rightarrow> nat \<Rightarrow> 8 word" where
  "le_byte v j = ucast (drop_bit (8 * j) v)"

definition alloc_get :: "mbuf \<Rightarrow> int \<Rightarrow> 64 word" where
  "alloc_get m k =
     foldr (\<lambda>j w. push_bit 8 w OR ucast (byte_get m (m_data m + 8 * nat k + j))) [0..<8] 0"

definition alloc_set :: "mbuf \<Rightarrow> int \<Rightarrow> 64 word \<Rightarrow> mbuf" where
  "alloc_set m k v =
     fold (\<lambda>j m'. byte_set m' (m_data m + 8 * nat k + j) (le_byte v j)) [0..<8] m"

subsection \<open>\<^verbatim>\<open>lre_rx_thread\<close>\<close>

text \<open>
  The test of line 501, on the \<^verbatim>\<open>uint32_t\<close> values \<open>length\<close>, \<open>buf\<close> and \<open>errs\<close>:
  \<^verbatim>\<open>(length > MCLBYTES - ETHER_ALIGN) || ((0x101<<(buf&7)) & errs)\<close>.
\<close>

definition rx_discard :: "lre_param \<Rightarrow> 32 word \<Rightarrow> 32 word \<Rightarrow> 32 word \<Rightarrow> bool" where
  "rx_discard P length' buf errs =
     (length' > MCLBYTES P - ETHER_ALIGN P \<or> push_bit (unat (buf AND 7)) 0x101 AND errs \<noteq> 0)"

text \<open>
  The copy loop of lines 524 to 527: \<^verbatim>\<open>for (i = 0; i < rnd; i+=8) alloc[i>>3] =
  GETREG(sc, start+i)\<close>. The counter \<open>i\<close> is a C \<^verbatim>\<open>int\<close> that is compared with the unsigned
  \<open>rnd\<close>. The loop is entered with \<open>i = 0\<close> and a length that has passed the test of line
  501, so \<open>rnd\<close> is at most \<^verbatim>\<open>MCLBYTES - ETHER_ALIGN\<close> rounded up, far below \<open>2 ^ 31\<close> for
  the kernel's cluster size: \<open>i\<close> stays in the range of an \<^verbatim>\<open>int\<close> and is kept as an
  integer.
\<close>

function rx_copy ::
  "lre_env \<Rightarrow> 32 word \<Rightarrow> 32 word \<Rightarrow> int \<Rightarrow> lre_softc \<Rightarrow> mbuf \<Rightarrow> lre_softc \<times> mbuf" where
  "rx_copy E start rnd i sc m =
     (if i < uint rnd then
        (let (v, sc') = GETREG E sc (start + word_of_int i)
         in rx_copy E start rnd (i + 8) sc' (alloc_set m (drop_bit 3 i) v))
      else (sc, m))"
  by pat_completeness auto
termination
  by (relation "measure (\<lambda>(E, start, rnd, i, sc, m). nat (uint rnd - i))") auto

declare rx_copy.simps [simp del]

text \<open>
  One pass through the body of the \<^verbatim>\<open>while\<close> loop, lines 494 to 538. The three ways out
  of the body: \<open>Discarded\<close> is the \<^verbatim>\<open>continue\<close> of line 507, \<open>Aborted\<close> the \<^verbatim>\<open>return\<close> of
  line 514, \<open>Delivered\<close> the end of the body; the first and the last carry the status that
  was read again for the loop test.
\<close>

datatype rx_iter =
    Discarded lre_softc "32 word"
  | Aborted lre_softc
  | Delivered lre_softc "32 word"

definition rx_body :: "lre_param \<Rightarrow> lre_env \<Rightarrow> lre_softc \<Rightarrow> 32 word \<Rightarrow> rx_iter" where
  "rx_body P E sc status =
     (let buf = status AND RSR_RECV_FIRST_MASK P;
          (errs64, sc) = GETREG E sc (RBAD_OFFSET P);
          errs = (ucast errs64 :: 32 word);
          (len64, sc) = GETREG E sc (RPLR_OFFSET P + push_bit 3 (buf AND 7));
          length' = (ucast (len64 AND ucast (RPLR_LENGTH_MASK P)) :: 32 word);
          length' = (if sc_cap sc AND IFCAP_RXCSUM P \<noteq> 0 then length' - 4 else length')
      in if rx_discard P length' buf errs then
           (let sc = device_printf sc ''Receive discarded\<newline>'';
                sc = if_inc_counter sc IFCOUNTER_IERRORS 1;
                sc = SETREG sc (RSR_OFFSET P) (ucast (buf + 1));
                (status64, sc) = GETREG E sc (RSR_OFFSET P)
            in Discarded sc (ucast status64))
         else
           (case m_getcl E (trace sc) of
              None \<Rightarrow>
                (let sc = emit (Getcl False) sc;
                     sc = device_printf sc ''no memory for receive mbuf.\<newline>'';
                     sc = if_inc_counter sc IFCOUNTER_IQDROPS 1
                 in Aborted sc)
            | Some m \<Rightarrow>
                (let sc = emit (Getcl True) sc;
                     m = m\<lparr>m_data := m_data m + unat (ETHER_ALIGN P)\<rparr>;
                     start = RXBUFF_OFFSET P + push_bit 11 (buf AND 7);
                     rnd = ((length' - 1) OR 7) + 1;
                     (sc, m) = rx_copy E start rnd 0 sc m;
                     sc = SETREG sc (RSR_OFFSET P) (ucast (buf + 1));
                     m = m\<lparr>m_pkthdr_rcvif := SC_ifp\<rparr>;
                     m = m\<lparr>m_len := length', m_pkthdr_len := length'\<rparr>;
                     sc = if_inc_counter sc IFCOUNTER_IPACKETS 1;
                     sc = emit (IfInput m) sc;
                     (status64, sc) = GETREG E sc (RSR_OFFSET P)
                 in Delivered sc (ucast status64))))"

text \<open>
  The \<^verbatim>\<open>while (status & RSR_RECV_DONE_MASK)\<close> loop. Nothing bounds the number of
  iterations: a device that keeps reporting a completed slot keeps the thread in the loop,
  so the loop is a partial function and \<open>None\<close> stands for not returning. The flag of the
  result tells whether the loop was left by the \<^verbatim>\<open>return\<close> of line 514.
\<close>

partial_function (option) rx_loop ::
  "lre_param \<Rightarrow> lre_env \<Rightarrow> lre_softc \<Rightarrow> 32 word \<Rightarrow> (bool \<times> lre_softc) option" where
  "rx_loop P E sc status =
     (if status AND RSR_RECV_DONE_MASK P \<noteq> 0 then
        (case rx_body P E sc status of
           Discarded sc' status' \<Rightarrow> rx_loop P E sc' status'
         | Aborted sc' \<Rightarrow> Some (True, sc')
         | Delivered sc' status' \<Rightarrow> rx_loop P E sc' status')
      else Some (False, sc))"

declare rx_loop.simps [code]

definition lre_rx_thread :: "lre_param \<Rightarrow> lre_env \<Rightarrow> lre_softc \<Rightarrow> lre_softc option" where
  "lre_rx_thread P E sc =
     (let (status64, sc) = GETREG E sc (RSR_OFFSET P)
      in case rx_loop P E sc (ucast status64) of
           None \<Rightarrow> None
         | Some (returned, sc) \<Rightarrow>
             if returned \<or> LOWRISC_NET_POLL P then Some sc
             else
               (let (machi, sc') = GETREG E sc (MACHI_OFFSET P)
                in Some (SETREG sc' (MACHI_OFFSET P) (ucast (MACHI_IRQ_EN P) OR machi))))"

text \<open>
  Names for what one pass through the body reads before it decides: the slot \<open>buf\<close>, the
  error register, the length register of the slot, the masked length and the length after
  the trailer subtraction of line 497, and the two register reads as events.
\<close>

definition rx_buf :: "lre_param \<Rightarrow> 32 word \<Rightarrow> 32 word" where
  "rx_buf P status = status AND RSR_RECV_FIRST_MASK P"

definition rx_errs64 :: "lre_param \<Rightarrow> lre_env \<Rightarrow> lre_softc \<Rightarrow> 64 word" where
  "rx_errs64 P E sc = bus_read_8 E (trace sc) (RBAD_OFFSET P)"

definition rx_errs :: "lre_param \<Rightarrow> lre_env \<Rightarrow> lre_softc \<Rightarrow> 32 word" where
  "rx_errs P E sc = ucast (rx_errs64 P E sc)"

definition rx_len64 :: "lre_param \<Rightarrow> lre_env \<Rightarrow> lre_softc \<Rightarrow> 32 word \<Rightarrow> 64 word" where
  "rx_len64 P E sc status =
     bus_read_8 E (trace sc @ [RegRead (RBAD_OFFSET P) (rx_errs64 P E sc)])
       (RPLR_OFFSET P + push_bit 3 (rx_buf P status AND 7))"

definition rx_masked_length :: "lre_param \<Rightarrow> lre_env \<Rightarrow> lre_softc \<Rightarrow> 32 word \<Rightarrow> 32 word" where
  "rx_masked_length P E sc status = ucast (rx_len64 P E sc status AND ucast (RPLR_LENGTH_MASK P))"

definition rx_length :: "lre_param \<Rightarrow> lre_env \<Rightarrow> lre_softc \<Rightarrow> 32 word \<Rightarrow> 32 word" where
  "rx_length P E sc status =
     (if sc_cap sc AND IFCAP_RXCSUM P \<noteq> 0 then rx_masked_length P E sc status - 4
      else rx_masked_length P E sc status)"

definition rx_header :: "lre_param \<Rightarrow> lre_env \<Rightarrow> lre_softc \<Rightarrow> 32 word \<Rightarrow> event list" where
  "rx_header P E sc status =
     [RegRead (RBAD_OFFSET P) (rx_errs64 P E sc),
      RegRead (RPLR_OFFSET P + push_bit 3 (rx_buf P status AND 7)) (rx_len64 P E sc status)]"

fun rx_accepted :: "rx_iter \<Rightarrow> bool" where
  "rx_accepted (Discarded sc status) = False"
| "rx_accepted (Aborted sc) = True"
| "rx_accepted (Delivered sc status) = True"

fun rx_softc :: "rx_iter \<Rightarrow> lre_softc" where
  "rx_softc (Discarded sc status) = sc"
| "rx_softc (Aborted sc) = sc"
| "rx_softc (Delivered sc status) = sc"

text \<open>
  The state and the status with which the loop test is reached for the \<open>n\<close>-th time after
  the test at \<open>sc\<close> and \<open>status\<close>; \<open>None\<close> when the loop has been left before.
\<close>

fun rx_iterate ::
  "lre_param \<Rightarrow> lre_env \<Rightarrow> nat \<Rightarrow> lre_softc \<Rightarrow> 32 word \<Rightarrow> (lre_softc \<times> 32 word) option" where
  "rx_iterate P E 0 sc status = Some (sc, status)"
| "rx_iterate P E (Suc n) sc status =
     (if status AND RSR_RECV_DONE_MASK P \<noteq> 0 then
        (case rx_body P E sc status of
           Discarded sc' status' \<Rightarrow> rx_iterate P E n sc' status'
         | Aborted sc' \<Rightarrow> None
         | Delivered sc' status' \<Rightarrow> rx_iterate P E n sc' status')
      else None)"

text \<open>Kinds of events, and the events a run has added to a trace.\<close>

fun is_write :: "event \<Rightarrow> bool" where
  "is_write (RegWrite off v) = True"
| "is_write e = False"

fun is_getcl :: "event \<Rightarrow> bool" where
  "is_getcl (Getcl b) = True"
| "is_getcl e = False"

fun is_input :: "event \<Rightarrow> bool" where
  "is_input (IfInput m) = True"
| "is_input e = False"

definition added :: "lre_softc \<Rightarrow> lre_softc \<Rightarrow> event list" where
  "added sc sc' = drop (length (trace sc)) (trace sc')"

text \<open>The frames that a history has handed to the input routine, in order.\<close>

fun inputs :: "event list \<Rightarrow> mbuf list" where
  "inputs [] = []"
| "inputs (IfInput m # es) = m # inputs es"
| "inputs (e # es) = inputs es"

subsection \<open>\<^verbatim>\<open>lre_init\<close>\<close>

definition lre_init :: "lre_param \<Rightarrow> lre_env \<Rightarrow> lre_softc \<Rightarrow> lre_softc" where
  "lre_init P E sc =
     (let sc = (if if_drv_flags sc AND IFF_DRV_RUNNING P \<noteq> 0
                then sc\<lparr>if_drv_flags := if_drv_flags sc AND NOT (IFF_DRV_RUNNING P)\<rparr>
                else sc);
          sc = sc\<lparr>if_drv_flags := if_drv_flags sc OR IFF_DRV_RUNNING P\<rparr>;
          sc = device_printf sc ''lre_init called\<newline>'';
          sc = (if LOWRISC_NET_POLL P then sc
                else (let (machi, sc) = GETREG E sc (MACHI_OFFSET P)
                      in SETREG sc (MACHI_OFFSET P) (ucast (MACHI_IRQ_EN P) OR machi)))
      in sc\<lparr>sc_cap := IFCAP_RXCSUM P\<rparr>)"

text \<open>The value that the last write to the register at \<open>off\<close> in a history left there.\<close>

fun last_write :: "32 word \<Rightarrow> event list \<Rightarrow> 64 word option" where
  "last_write off [] = None"
| "last_write off (RegWrite a v # es) =
     (case last_write off es of
        None \<Rightarrow> (if a = off then Some v else None)
      | Some w \<Rightarrow> Some w)"
| "last_write off (e # es) = last_write off es"

text \<open>
  A device reads back the register at \<open>off\<close> after the history \<open>h\<close> when a read there
  returns the value that the last write to it in \<open>h\<close> left.
\<close>

definition reads_back :: "lre_env \<Rightarrow> 32 word \<Rightarrow> event list \<Rightarrow> bool" where
  "reads_back E off h =
     (case last_write off h of None \<Rightarrow> True | Some w \<Rightarrow> bus_read_8 E h off = w)"

subsection \<open>\<^verbatim>\<open>lre_transmit\<close>\<close>

text \<open>
  The copy loop of lines 310 to 313, \<^verbatim>\<open>for (i = 0; i < words; i+=8) SETREG(sc,
  TXBUFF_OFFSET+i, alloc[i>>3])\<close>. \<open>i\<close> and \<open>words\<close> are C \<^verbatim>\<open>int\<close>s: 32-bit values that are
  compared as signed numbers. C leaves signed overflow undefined; the model takes the
  two's-complement wrap-around of the target. With wrap-around nothing bounds the loop for
  arbitrary \<open>i\<close> and \<open>words\<close>, so it is a partial function and \<open>None\<close> stands for not
  returning.
\<close>

partial_function (option) tx_copy ::
  "lre_param \<Rightarrow> mbuf \<Rightarrow> 32 word \<Rightarrow> 32 word \<Rightarrow> lre_softc \<Rightarrow> lre_softc option" where
  "tx_copy P m words i sc =
     (if sint i < sint words then
        tx_copy P m words (i + 8)
          (SETREG sc (TXBUFF_OFFSET P + i) (alloc_get m (sint (signed_drop_bit 3 i))))
      else Some sc)"

declare tx_copy.simps [code]

text \<open>
  \<^verbatim>\<open>lre_transmit\<close>. \<^verbatim>\<open>m_pkthdr.len\<close> is a 32-bit \<^verbatim>\<open>int\<close>, converted with its sign where it is
  passed as a 64-bit value.
\<close>

definition lre_transmit :: "lre_param \<Rightarrow> lre_softc \<Rightarrow> mbuf \<Rightarrow> (int \<times> lre_softc) option" where
  "lre_transmit P sc m =
     (if if_drv_flags sc AND IFF_DRV_RUNNING P \<noteq> IFF_DRV_RUNNING P
      then Some (0, m_freem sc m)
      else
        (let words = ((m_pkthdr_len m - 1) OR 7) + 1
         in case tx_copy P m words 0 sc of
              None \<Rightarrow> None
            | Some sc \<Rightarrow>
                (let sc = SETREG sc (TPLR_OFFSET P) (scast (m_pkthdr_len m));
                     sc = emit (BpfMtap m) sc;
                     sc = if_inc_counter sc IFCOUNTER_OPACKETS 1;
                     sc = if_inc_counter sc IFCOUNTER_OBYTES (scast (m_pkthdr_len m));
                     sc = m_freem sc m
                 in Some (0, sc))))"

subsection \<open>The MAC address in \<^verbatim>\<open>lre_attach\<close>\<close>

text \<open>
  Modelled from the spec: \<^verbatim>\<open>__bswap32\<close> and \<^verbatim>\<open>__bswap16\<close> of \<^verbatim>\<open>sys/endian.h\<close>, which is
  not part of the embedded file; the spec calls them the explicit byte swap of a register
  value. They reverse the four, respectively two, bytes of their argument.
\<close>

definition bswap32 :: "32 word \<Rightarrow> 32 word" where
  "bswap32 x =
     drop_bit 24 x OR (drop_bit 8 x AND 0xff00) OR (push_bit 8 x AND 0xff0000) OR push_bit 24 x"

definition bswap16 :: "16 word \<Rightarrow> 16 word" where
  "bswap16 x = push_bit 8 x OR drop_bit 8 x"

text \<open>
  The bytes of a \<^verbatim>\<open>uint32_t\<close> object in memory, lowest address first. The driver is for
  RISC-V, which is little-endian. \<open>memcpy\<close> overwrites \<open>n\<close> bytes of an array from
  position \<open>off\<close> on.
\<close>

definition le_bytes :: "32 word \<Rightarrow> 8 word list" where
  "le_bytes x = [ucast x, ucast (drop_bit 8 x), ucast (drop_bit 16 x), ucast (drop_bit 24 x)]"

definition memcpy :: "8 word list \<Rightarrow> nat \<Rightarrow> 8 word list \<Rightarrow> nat \<Rightarrow> 8 word list" where
  "memcpy dst off src n = take off dst @ take n src @ drop (off + n) dst"

text \<open>
  Lines 196 to 199. \<open>mac\<close> is the uninitialised array \<^verbatim>\<open>uint8_t mac[6]\<close>; \<open>macaddr_hi\<close> is
  a \<^verbatim>\<open>uint32_t\<close> that holds the 16-bit result of \<^verbatim>\<open>__bswap16\<close>.
\<close>

definition lre_attach_mac ::
  "lre_param \<Rightarrow> lre_env \<Rightarrow> lre_softc \<Rightarrow> 8 word list \<Rightarrow> 8 word list \<times> lre_softc" where
  "lre_attach_mac P E sc mac =
     (let (lo64, sc) = GETREG E sc (MACLO_OFFSET P);
          macaddr_lo = bswap32 (ucast lo64);
          (hi64, sc) = GETREG E sc (MACHI_OFFSET P);
          macaddr_hi = (ucast (bswap16 (ucast (hi64 AND ucast (MACHI_MACADDR_MASK P)))) :: 32 word);
          mac = memcpy mac 2 (le_bytes macaddr_lo) 4;
          mac = memcpy mac 0 (le_bytes macaddr_hi) 2
      in (mac, sc))"

subsection \<open>The acceptance test in the words of the specification\<close>

text \<open>
  The specification states the test on the length \<open>L\<close>, the slot \<open>s\<close> and the error
  register \<open>E\<close> as \<^verbatim>\<open>L <= max_frame_bytes\<close> and \<^verbatim>\<open>(BASE_ERR | (BASE_ERR << s)) & E == 0\<close>
  with \<^verbatim>\<open>BASE_ERR = 0x101\<close>. This definition follows those words, to be compared with
  \<open>rx_discard\<close>, which follows line 501.
\<close>

definition spec_accept :: "lre_param \<Rightarrow> 32 word \<Rightarrow> 32 word \<Rightarrow> 32 word \<Rightarrow> bool" where
  "spec_accept P L s E =
     (L \<le> MCLBYTES P - ETHER_ALIGN P \<and> (0x101 OR push_bit (unat s) 0x101) AND E = 0)"

subsection \<open>A concrete device for example runs\<close>

text \<open>
  One instance of the parameters, with the kernel's cluster size of 2048 bytes and
  alignment pad of 2 bytes, in interrupt mode. \<open>test_dev errs len mb\<close> is a device whose
  error register reads \<open>errs\<close> and whose length registers read \<open>len\<close>, that reports slot 3
  as completed until the status register is written and an empty ring from then on, whose
  control register reads back what was written to it, and whose buffer windows read their
  own offset; its allocator answers \<open>mb\<close>.
\<close>

definition lowrisc :: lre_param where
  "lowrisc =
     \<lparr>MACLO_OFFSET = 0x800, MACHI_OFFSET = 0x808, TPLR_OFFSET = 0x810, RSR_OFFSET = 0x830,
      RBAD_OFFSET = 0x838, RPLR_OFFSET = 0x840, TXBUFF_OFFSET = 0x1000,
      RXBUFF_OFFSET = 0x4000, MACHI_MACADDR_MASK = 0xFFFF, MACHI_IRQ_EN = 0x800000,
      RSR_RECV_FIRST_MASK = 0xF, RSR_RECV_DONE_MASK = 0x1000, RPLR_LENGTH_MASK = 0xFFF,
      MCLBYTES = 2048, ETHER_ALIGN = 2, IFCAP_RXCSUM = 1, IFF_DRV_RUNNING = 0x40,
      LOWRISC_NET_POLL = False\<rparr>"

definition test_dev :: "64 word \<Rightarrow> 64 word \<Rightarrow> mbuf option \<Rightarrow> lre_env" where
  "test_dev errs len mb =
     \<lparr>bus_read_8 = (\<lambda>h off.
        if off = 0x838 then errs
        else if 0x840 \<le> off \<and> off < 0x880 then len
        else if off = 0x830 then (case last_write 0x830 h of None \<Rightarrow> 0x1003 | Some v \<Rightarrow> 0)
        else if off = 0x808 then (case last_write 0x808 h of None \<Rightarrow> 0x2301 | Some v \<Rightarrow> v)
        else ucast off),
      m_getcl = (\<lambda>h. mb)\<rparr>"

definition sc0 :: lre_softc where
  "sc0 = \<lparr>if_drv_flags = 0x40, sc_cap = 1, if_counters = (\<lambda>c. 0), trace = []\<rparr>"

definition mb0 :: mbuf where
  "mb0 = \<lparr>m_data = 0, m_len = 0, m_pkthdr_len = 0, m_pkthdr_rcvif = NULL_ifp,
          m_ext_buf = replicate 2048 0, m_after = (\<lambda>a. 0)\<rparr>"

definition frame0 :: mbuf where
  "frame0 = \<lparr>m_data = 0, m_len = 60, m_pkthdr_len = 60, m_pkthdr_rcvif = NULL_ifp,
             m_ext_buf = replicate 2048 0x5a, m_after = (\<lambda>a. 0)\<rparr>"


definition stuck_dev :: "64 word \<Rightarrow> lre_env" where
  "stuck_dev len =
     \<lparr>bus_read_8 = (\<lambda>h off.
        if off = 0x830 then 0x1003
        else if off = 0x838 then 0
        else if off = 0x858 then len
        else 0x1122334455667788),
      m_getcl = (\<lambda>h. Some mb0)\<rparr>"



definition over_pass :: rx_iter where
  "over_pass = rx_body lowrisc (stuck_dev 2050) sc0 0x1003"

definition over_frame :: mbuf where
  "over_frame = hd (inputs (trace (rx_softc over_pass)))"

section \<open>Properties\<close>

subsection \<open>Rounding a length up to a multiple of 8\<close>

lemma or7_word: "(x :: 'a::len word) OR 7 = push_bit 3 (drop_bit 3 x) + 7"
proof -
  have m: "(7 :: 'a word) = mask 3" by (simp add: mask_eq_exp_minus_1)
  have "push_bit 3 (drop_bit 3 x) AND (mask 3 :: 'a word) = 0"
    by (rule bit_eqI) (auto simp: bit_simps)
  then have "push_bit 3 (drop_bit 3 x) + (mask 3 :: 'a word) = push_bit 3 (drop_bit 3 x) OR mask 3"
    by (rule disjunctive_add_eq_or)
  also have "\<dots> = x OR mask 3"
    by (rule bit_eqI) (auto simp: bit_simps)
  finally show ?thesis by (simp add: m)
qed

lemma or7_int: "(x :: int) OR 7 = push_bit 3 (drop_bit 3 x) + 7"
proof -
  have m: "(7 :: int) = mask 3" by (simp add: mask_eq_exp_minus_1)
  have "push_bit 3 (drop_bit 3 x) AND (mask 3 :: int) = 0"
    by (rule bit_eqI) (auto simp: bit_simps)
  then have "push_bit 3 (drop_bit 3 x) + (mask 3 :: int) = push_bit 3 (drop_bit 3 x) OR mask 3"
    by (rule disjunctive_add_eq_or)
  also have "\<dots> = x OR mask 3"
    by (rule bit_eqI) (auto simp: bit_simps)
  finally show ?thesis by (simp add: m)
qed

lemma round8_int: "(((L :: int) - 1) OR 7) + 1 = 8 * ((L + 7) div 8)"
  by (simp add: or7_int push_bit_eq_mult drop_bit_eq_div) presburger

lemma round8_word: "(((L :: 32 word) - 1) OR 7) + 1 = 8 * (drop_bit 3 (L - 1) + 1)"
  by (simp add: or7_word push_bit_eq_mult algebra_simps)

lemma round8_dvd: "8 dvd unat ((((L :: 32 word) - 1) OR 7) + 1)"
proof -
  have "(((L - 1) OR 7) + 1) = push_bit 3 (drop_bit 3 (L - 1) + 1)"
    by (simp add: round8_word push_bit_eq_mult)
  moreover have "push_bit 3 (drop_bit 3 (L - 1) + 1) AND (mask 3 :: 32 word) = 0"
    by (rule bit_eqI) (auto simp: bit_simps)
  ultimately have "2 ^ 3 dvd unat (((L - 1) OR 7) + 1)"
    by (simp only: and_mask_dvd_nat)
  then show ?thesis by simp
qed

lemma round8_unat:
  assumes "L \<le> (0xFFFFFFF8 :: 32 word)"
  shows "unat (((L - 1) OR 7) + 1) = 8 * ((unat L + 7) div 8)"
proof (cases "L = 0")
  case True
  then show ?thesis by simp
next
  case False
  then have p: "0 < unat L" by (simp add: unat_gt_0)
  from assms have u: "unat L \<le> 4294967288" by (simp add: word_le_nat_alt)
  have x: "unat (L - 1) = unat L - 1" using p by (simp add: unat_minus_one False)
  have d: "unat (drop_bit 3 (L - 1)) = (unat L - 1) div 8"
    by (simp add: drop_bit_eq_div unat_div x)
  have b1: "(unat L - 1) div 8 + 1 < 2 ^ 32" using u by simp
  have "unat (drop_bit 3 (L - 1) + 1) = (unat (drop_bit 3 (L - 1)) + unat (1 :: 32 word)) mod 2 ^ LENGTH(32)"
    by (rule unat_word_ariths)
  also have "\<dots> = (unat L - 1) div 8 + 1"
    using b1 by (simp add: d)
  finally have e: "unat (drop_bit 3 (L - 1) + 1) = (unat L - 1) div 8 + 1" .
  have b2: "8 * ((unat L - 1) div 8 + 1) < 2 ^ 32" using u by simp
  have "unat (8 * (drop_bit 3 (L - 1) + 1)) = (unat (8 :: 32 word) * unat (drop_bit 3 (L - 1) + 1)) mod 2 ^ LENGTH(32)"
    by (rule unat_word_ariths)
  also have "\<dots> = 8 * ((unat L - 1) div 8 + 1)"
    using b2 by (simp add: e)
  finally have "unat (8 * (drop_bit 3 (L - 1) + 1)) = 8 * ((unat L - 1) div 8 + 1)" .
  also have "\<dots> = 8 * ((unat L + 7) div 8)"
  proof -
    from p obtain n where n: "unat L = Suc n" by (cases "unat L") auto
    have "(8 + n) div 8 = Suc (n div 8)" by simp
    then show ?thesis by (simp add: n)
  qed
  finally show ?thesis by (simp only: round8_word)
qed

subsection \<open>The receive copy loop\<close>

lemma drop_bit3_add8: "drop_bit 3 (i + 8 :: int) = drop_bit 3 i + 1"
  by (simp add: drop_bit_eq_div)

lemma iter_count_step: "i < uint (rnd :: 32 word) \<Longrightarrow>
  nat ((uint rnd - i + 7) div 8) = Suc (nat ((uint rnd - (i + 8) + 7) div 8))"
  by (auto simp: nat_eq_iff algebra_simps zdiv_int; linarith?)

lemma iter_count_done: "\<not> i < uint (rnd :: 32 word) \<Longrightarrow> nat ((uint rnd - i + 7) div 8) = 0"
  by simp

text \<open>Bytes of a buffer after a store, and the fields that a store leaves alone.\<close>

lemma byte_get_set: "byte_get (byte_set m a b) a' = (if a' = a then b else byte_get m a')"
  by (auto simp: byte_get_def byte_set_def)

lemma byte_set_fields:
  "m_data (byte_set m a b) = m_data m"
  "m_len (byte_set m a b) = m_len m"
  "m_pkthdr_len (byte_set m a b) = m_pkthdr_len m"
  "m_pkthdr_rcvif (byte_set m a b) = m_pkthdr_rcvif m"
  "length (m_ext_buf (byte_set m a b)) = length (m_ext_buf m)"
  by (simp_all add: byte_set_def)

lemma fold_byte_set:
  "byte_get (fold (\<lambda>j m'. byte_set m' (a + j) (f j)) [0..<n] m) a' =
     (if a \<le> a' \<and> a' < a + n then f (a' - a) else byte_get m a')"
  by (induction n) (auto simp: byte_get_set)

lemma fold_byte_set_fields:
  "m_data (fold (\<lambda>j m'. byte_set m' (a + j) (f j)) [0..<n] m) = m_data m"
  "m_len (fold (\<lambda>j m'. byte_set m' (a + j) (f j)) [0..<n] m) = m_len m"
  "m_pkthdr_len (fold (\<lambda>j m'. byte_set m' (a + j) (f j)) [0..<n] m) = m_pkthdr_len m"
  "m_pkthdr_rcvif (fold (\<lambda>j m'. byte_set m' (a + j) (f j)) [0..<n] m) = m_pkthdr_rcvif m"
  "length (m_ext_buf (fold (\<lambda>j m'. byte_set m' (a + j) (f j)) [0..<n] m)) = length (m_ext_buf m)"
  by (induction n) (simp_all add: byte_set_fields)

lemma byte_get_alloc_set:
  "byte_get (alloc_set m k v) a' =
     (if m_data m + 8 * nat k \<le> a' \<and> a' < m_data m + 8 * nat k + 8
      then le_byte v (a' - (m_data m + 8 * nat k)) else byte_get m a')"
  unfolding alloc_set_def by (rule fold_byte_set)

lemma alloc_set_fields:
  "m_data (alloc_set m k v) = m_data m"
  "m_len (alloc_set m k v) = m_len m"
  "m_pkthdr_len (alloc_set m k v) = m_pkthdr_len m"
  "m_pkthdr_rcvif (alloc_set m k v) = m_pkthdr_rcvif m"
  "length (m_ext_buf (alloc_set m k v)) = length (m_ext_buf m)"
  unfolding alloc_set_def by (rule fold_byte_set_fields)+

lemma rx_copy_spec:
  "0 \<le> i \<Longrightarrow>
   \<exists>vs. length vs = nat ((uint rnd - i + 7) div 8) \<and>
        fst (rx_copy E start rnd i sc m) =
          sc\<lparr>trace := trace sc @
             map (\<lambda>j. RegRead (start + word_of_int (i + 8 * int j)) (vs ! j)) [0..<length vs]\<rparr> \<and>
        (\<forall>j<length vs. \<exists>h. vs ! j = bus_read_8 E h (start + word_of_int (i + 8 * int j))) \<and>
        (\<forall>a. byte_get (snd (rx_copy E start rnd i sc m)) a =
           (if m_data m + 8 * nat (drop_bit 3 i) \<le> a \<and>
               a < m_data m + 8 * nat (drop_bit 3 i) + 8 * length vs
            then le_byte (vs ! ((a - (m_data m + 8 * nat (drop_bit 3 i))) div 8))
                   ((a - (m_data m + 8 * nat (drop_bit 3 i))) mod 8)
            else byte_get m a)) \<and>
        m_data (snd (rx_copy E start rnd i sc m)) = m_data m \<and>
        m_len (snd (rx_copy E start rnd i sc m)) = m_len m \<and>
        m_pkthdr_len (snd (rx_copy E start rnd i sc m)) = m_pkthdr_len m \<and>
        m_pkthdr_rcvif (snd (rx_copy E start rnd i sc m)) = m_pkthdr_rcvif m \<and>
        length (m_ext_buf (snd (rx_copy E start rnd i sc m))) = length (m_ext_buf m)"
proof (induction E start rnd i sc m rule: rx_copy.induct)
  case (1 E start rnd i sc m)
  show ?case
  proof (cases "i < uint rnd")
    case False
    then show ?thesis by (auto simp: rx_copy.simps [of E start rnd i sc m])
  next
    case True
    define v where "v = bus_read_8 E (trace sc) (start + word_of_int i)"
    define sc1 where "sc1 = emit (RegRead (start + word_of_int i) v) sc"
    define m1 where "m1 = alloc_set m (drop_bit 3 i) v"
    define B where "B = m_data m + 8 * nat (drop_bit 3 i)"
    have g: "GETREG E sc (start + word_of_int i) = (v, sc1)"
      by (simp add: GETREG_def v_def sc1_def Let_def)
    have step: "rx_copy E start rnd i sc m = rx_copy E start rnd (i + 8) sc1 m1"
      using True by (simp add: rx_copy.simps [of E start rnd i sc m] g m1_def)
    have d0: "0 \<le> drop_bit 3 i" using "1.prems" by (simp add: drop_bit_eq_div)
    have nd: "nat (drop_bit 3 (i + 8)) = Suc (nat (drop_bit 3 i))"
      using d0 by (simp add: drop_bit3_add8 nat_add_distrib)
    have md: "m_data m1 = m_data m" by (simp add: m1_def alloc_set_fields)
    have B1: "m_data m1 + 8 * nat (drop_bit 3 (i + 8)) = B + 8"
      by (simp add: md nd B_def)
    let ?r = "rx_copy E start rnd (i + 8) sc1 m1"
    from "1.IH" [OF True g [symmetric] refl] "1.prems"
    obtain vs where vs: "length vs = nat ((uint rnd - (i + 8) + 7) div 8)"
      "fst ?r =
          sc1\<lparr>trace := trace sc1 @
             map (\<lambda>j. RegRead (start + word_of_int (i + 8 + 8 * int j)) (vs ! j)) [0..<length vs]\<rparr>"
      "\<forall>j<length vs. \<exists>h. vs ! j = bus_read_8 E h (start + word_of_int (i + 8 + 8 * int j))"
      "\<forall>a. byte_get (snd ?r) a =
           (if B + 8 \<le> a \<and> a < B + 8 + 8 * length vs
            then le_byte (vs ! ((a - (B + 8)) div 8)) ((a - (B + 8)) mod 8)
            else byte_get m1 a)"
      "m_data (snd ?r) = m_data m1"
      "m_len (snd ?r) = m_len m1"
      "m_pkthdr_len (snd ?r) = m_pkthdr_len m1"
      "m_pkthdr_rcvif (snd ?r) = m_pkthdr_rcvif m1"
      "length (m_ext_buf (snd ?r)) = length (m_ext_buf m1)"
      unfolding m1_def [symmetric] B1 by force
    let ?ws = "v # vs"
    have len: "length ?ws = nat ((uint rnd - i + 7) div 8)"
      using vs(1) iter_count_step [OF True] by simp
    have tr: "fst (rx_copy E start rnd i sc m) =
          sc\<lparr>trace := trace sc @
             map (\<lambda>j. RegRead (start + word_of_int (i + 8 * int j)) (?ws ! j)) [0..<length ?ws]\<rparr>"
      unfolding step vs(2)
      by (simp add: sc1_def emit_def upt_conv_Cons map_Suc_upt [symmetric] del: upt_Suc
            add: algebra_simps o_def)
    have hs: "\<forall>j<length ?ws. \<exists>h. ?ws ! j = bus_read_8 E h (start + word_of_int (i + 8 * int j))"
    proof (intro allI impI)
      fix j assume j: "j < length ?ws"
      show "\<exists>h. ?ws ! j = bus_read_8 E h (start + word_of_int (i + 8 * int j))"
      proof (cases j)
        case 0
        then show ?thesis by (auto simp: v_def)
      next
        case (Suc k)
        with j vs(3) have "\<exists>h. vs ! k = bus_read_8 E h (start + word_of_int (i + 8 + 8 * int k))"
          by simp
        then show ?thesis by (simp add: Suc algebra_simps)
      qed
    qed
    have bts: "\<forall>a. byte_get (snd (rx_copy E start rnd i sc m)) a =
           (if B \<le> a \<and> a < B + 8 * length ?ws
            then le_byte (?ws ! ((a - B) div 8)) ((a - B) mod 8)
            else byte_get m a)"
    proof
      fix a
      consider "a < B" | "B \<le> a" "a < B + 8" | "B + 8 \<le> a" by linarith
      then show "byte_get (snd (rx_copy E start rnd i sc m)) a =
           (if B \<le> a \<and> a < B + 8 * length ?ws
            then le_byte (?ws ! ((a - B) div 8)) ((a - B) mod 8)
            else byte_get m a)"
      proof cases
        case 1
        then show ?thesis
          unfolding step using vs(4) by (simp add: m1_def byte_get_alloc_set B_def)
      next
        case 2
        then have "(a - B) div 8 = 0" "(a - B) mod 8 = a - B" by simp_all
        with 2 show ?thesis
          unfolding step using vs(4) by (simp add: m1_def byte_get_alloc_set B_def)
      next
        case 3
        then obtain c where c: "a = B + 8 + c" by (metis le_Suc_ex)
        have dm: "(a - B) div 8 = Suc (c div 8)" "(a - B) mod 8 = c mod 8"
          "(a - (B + 8)) div 8 = c div 8" "(a - (B + 8)) mod 8 = c mod 8"
          by (simp_all add: c)
        show ?thesis
          unfolding step using vs(4) 3
          by (simp add: dm m1_def byte_get_alloc_set B_def [symmetric])
      qed
    qed
    have fl: "m_data (snd (rx_copy E start rnd i sc m)) = m_data m"
      "m_len (snd (rx_copy E start rnd i sc m)) = m_len m"
      "m_pkthdr_len (snd (rx_copy E start rnd i sc m)) = m_pkthdr_len m"
      "m_pkthdr_rcvif (snd (rx_copy E start rnd i sc m)) = m_pkthdr_rcvif m"
      "length (m_ext_buf (snd (rx_copy E start rnd i sc m))) = length (m_ext_buf m)"
      unfolding step using vs(5-9) by (simp_all add: m1_def alloc_set_fields)
    show ?thesis
      using len tr hs bts fl unfolding B_def by blast
  qed
qed

lemma rx_copy_from_0:
  assumes "8 dvd unat rnd"
  shows "\<exists>vs m'. length vs = unat rnd div 8 \<and>
        (\<forall>j<length vs. \<exists>h. vs ! j = bus_read_8 E h (start + 8 * word_of_nat j)) \<and>
        (\<forall>a. byte_get m' a =
           (if m_data m \<le> a \<and> a < m_data m + unat rnd
            then le_byte (vs ! ((a - m_data m) div 8)) ((a - m_data m) mod 8)
            else byte_get m a)) \<and>
        m_data m' = m_data m \<and> m_len m' = m_len m \<and> m_pkthdr_len m' = m_pkthdr_len m \<and>
        m_pkthdr_rcvif m' = m_pkthdr_rcvif m \<and>
        length (m_ext_buf m') = length (m_ext_buf m) \<and>
        rx_copy E start rnd 0 sc m =
          (sc\<lparr>trace := trace sc @
             map (\<lambda>j. RegRead (start + 8 * word_of_nat j) (vs ! j)) [0..<length vs]\<rparr>, m')"
proof -
  let ?r = "rx_copy E start rnd 0 sc m"
  from rx_copy_spec [of 0 rnd E start sc m, OF order_refl]
  obtain vs where vs: "length vs = nat ((uint rnd - 0 + 7) div 8)"
    "fst ?r =
          sc\<lparr>trace := trace sc @
             map (\<lambda>j. RegRead (start + word_of_int (0 + 8 * int j)) (vs ! j)) [0..<length vs]\<rparr>"
    "\<forall>j<length vs. \<exists>h. vs ! j = bus_read_8 E h (start + word_of_int (0 + 8 * int j))"
    "\<forall>a. byte_get (snd ?r) a =
           (if m_data m + 8 * nat (drop_bit 3 (0::int)) \<le> a \<and>
               a < m_data m + 8 * nat (drop_bit 3 (0::int)) + 8 * length vs
            then le_byte (vs ! ((a - (m_data m + 8 * nat (drop_bit 3 (0::int)))) div 8))
                   ((a - (m_data m + 8 * nat (drop_bit 3 (0::int)))) mod 8)
            else byte_get m a)"
    "m_data (snd ?r) = m_data m" "m_len (snd ?r) = m_len m"
    "m_pkthdr_len (snd ?r) = m_pkthdr_len m" "m_pkthdr_rcvif (snd ?r) = m_pkthdr_rcvif m"
    "length (m_ext_buf (snd ?r)) = length (m_ext_buf m)"
    by (elim exE conjE) (rule that)
  from assms obtain k where k: "unat rnd = 8 * k" by (auto simp: dvd_def)
  have "uint rnd = 8 * int k" using k by (metis of_nat_mult of_nat_numeral uint_nat)
  then have len: "length vs = unat rnd div 8" and len8: "8 * length vs = unat rnd"
    using vs(1) k by simp_all
  have r: "?r = (sc\<lparr>trace := trace sc @
             map (\<lambda>j. RegRead (start + 8 * word_of_nat j) (vs ! j)) [0..<length vs]\<rparr>, snd ?r)"
    using vs(2) by (simp add: prod_eq_iff)
  have hs: "\<forall>j<length vs. \<exists>h. vs ! j = bus_read_8 E h (start + 8 * word_of_nat j)"
    using vs(3) by simp
  have bts: "\<forall>a. byte_get (snd ?r) a =
           (if m_data m \<le> a \<and> a < m_data m + unat rnd
            then le_byte (vs ! ((a - m_data m) div 8)) ((a - m_data m) mod 8)
            else byte_get m a)"
    using vs(4) by (simp add: len8)
  from len hs bts vs(5-9) r show ?thesis by blast
qed

subsection \<open>The three ways through the body of the receive loop\<close>

lemma rx_body_discarded:
  assumes "rx_discard P (rx_length P E sc status) (rx_buf P status) (rx_errs P E sc)"
  shows "rx_body P E sc status =
    Discarded
      (sc\<lparr>if_counters := (if_counters sc)
             (IFCOUNTER_IERRORS := if_counters sc IFCOUNTER_IERRORS + 1),
          trace := trace sc @ rx_header P E sc status @
            [DevPrintf ''Receive discarded\<newline>'',
             RegWrite (RSR_OFFSET P) (ucast (rx_buf P status + 1)),
             RegRead (RSR_OFFSET P)
               (bus_read_8 E (trace sc @ rx_header P E sc status @
                  [DevPrintf ''Receive discarded\<newline>'',
                   RegWrite (RSR_OFFSET P) (ucast (rx_buf P status + 1))]) (RSR_OFFSET P))]\<rparr>)
      (ucast (bus_read_8 E (trace sc @ rx_header P E sc status @
                  [DevPrintf ''Receive discarded\<newline>'',
                   RegWrite (RSR_OFFSET P) (ucast (rx_buf P status + 1))]) (RSR_OFFSET P)))"
  using assms
  by (cases "sc_cap sc AND IFCAP_RXCSUM P = 0") (simp_all add: rx_body_def rx_length_def rx_masked_length_def rx_len64_def rx_errs_def
      rx_errs64_def rx_buf_def rx_header_def GETREG_def SETREG_def emit_def device_printf_def
      if_inc_counter_def Let_def)

lemma rx_body_aborted:
  assumes "\<not> rx_discard P (rx_length P E sc status) (rx_buf P status) (rx_errs P E sc)"
    and "m_getcl E (trace sc @ rx_header P E sc status) = None"
  shows "rx_body P E sc status =
    Aborted
      (sc\<lparr>if_counters := (if_counters sc)
             (IFCOUNTER_IQDROPS := if_counters sc IFCOUNTER_IQDROPS + 1),
          trace := trace sc @ rx_header P E sc status @
            [Getcl False, DevPrintf ''no memory for receive mbuf.\<newline>'']\<rparr>)"
  using assms
  by (cases "sc_cap sc AND IFCAP_RXCSUM P = 0") (simp_all add: rx_body_def rx_length_def rx_masked_length_def rx_len64_def rx_errs_def
      rx_errs64_def rx_buf_def rx_header_def GETREG_def SETREG_def emit_def device_printf_def
      if_inc_counter_def Let_def)

lemma rx_accepted_discard:
  "rx_accepted (rx_body P E sc status) =
     (\<not> rx_discard P (rx_length P E sc status) (rx_buf P status) (rx_errs P E sc))"
  by (cases "sc_cap sc AND IFCAP_RXCSUM P = 0") (simp_all add: rx_body_def rx_length_def rx_masked_length_def rx_len64_def rx_errs_def
      rx_errs64_def rx_buf_def rx_header_def GETREG_def SETREG_def emit_def device_printf_def
      if_inc_counter_def Let_def split: option.splits prod.splits)

lemma rx_body_accepted_some:
  assumes "\<not> rx_discard P (rx_length P E sc status) (rx_buf P status) (rx_errs P E sc)"
    and "m_getcl E (trace sc @ rx_header P E sc status) = Some m0"
  shows "rx_body P E sc status =
    (let (sc1, m1) =
           rx_copy E (RXBUFF_OFFSET P + push_bit 11 (rx_buf P status AND 7))
             (((rx_length P E sc status - 1) OR 7) + 1) 0
             (sc\<lparr>trace := trace sc @ rx_header P E sc status @ [Getcl True]\<rparr>)
             (m0\<lparr>m_data := m_data m0 + unat (ETHER_ALIGN P)\<rparr>);
         m2 = m1\<lparr>m_pkthdr_rcvif := SC_ifp,
                 m_len := rx_length P E sc status,
                 m_pkthdr_len := rx_length P E sc status\<rparr>;
         h = trace sc1 @ [RegWrite (RSR_OFFSET P) (ucast (rx_buf P status + 1)), IfInput m2];
         s = bus_read_8 E h (RSR_OFFSET P)
     in Delivered
          (sc1\<lparr>if_counters := (if_counters sc1)
                 (IFCOUNTER_IPACKETS := if_counters sc1 IFCOUNTER_IPACKETS + 1),
               trace := h @ [RegRead (RSR_OFFSET P) s]\<rparr>)
          (ucast s))"
  using assms
  by (cases "sc_cap sc AND IFCAP_RXCSUM P = 0") (simp_all add: rx_body_def rx_length_def rx_masked_length_def rx_len64_def rx_errs_def
      rx_errs64_def rx_buf_def rx_header_def GETREG_def SETREG_def emit_def device_printf_def
      if_inc_counter_def Let_def split: prod.splits)

lemma rx_body_delivered:
  assumes "\<not> rx_discard P (rx_length P E sc status) (rx_buf P status) (rx_errs P E sc)"
    and "m_getcl E (trace sc @ rx_header P E sc status) = Some m0"
  shows "\<exists>vs m sc'.
    length vs = unat (((rx_length P E sc status - 1) OR 7) + 1) div 8 \<and>
    (\<forall>j<length vs. \<exists>h. vs ! j =
       bus_read_8 E h (RXBUFF_OFFSET P + push_bit 11 (rx_buf P status AND 7) + 8 * word_of_nat j)) \<and>
    (\<forall>a. byte_get m a =
       (if m_data m0 + unat (ETHER_ALIGN P) \<le> a \<and>
           a < m_data m0 + unat (ETHER_ALIGN P) + unat (((rx_length P E sc status - 1) OR 7) + 1)
        then le_byte (vs ! ((a - (m_data m0 + unat (ETHER_ALIGN P))) div 8))
               ((a - (m_data m0 + unat (ETHER_ALIGN P))) mod 8)
        else byte_get m0 a)) \<and>
    m_data m = m_data m0 + unat (ETHER_ALIGN P) \<and>
    m_len m = rx_length P E sc status \<and>
    m_pkthdr_len m = rx_length P E sc status \<and>
    m_pkthdr_rcvif m = SC_ifp \<and>
    length (m_ext_buf m) = length (m_ext_buf m0) \<and>
    trace sc' = trace sc @ rx_header P E sc status @ [Getcl True] @
      map (\<lambda>j. RegRead (RXBUFF_OFFSET P + push_bit 11 (rx_buf P status AND 7) +
                           8 * word_of_nat j) (vs ! j)) [0..<length vs] @
      [RegWrite (RSR_OFFSET P) (ucast (rx_buf P status + 1)),
       IfInput m,
       RegRead (RSR_OFFSET P) (bus_read_8 E (butlast (trace sc')) (RSR_OFFSET P))] \<and>
    if_counters sc' =
      (if_counters sc)(IFCOUNTER_IPACKETS := if_counters sc IFCOUNTER_IPACKETS + 1) \<and>
    if_drv_flags sc' = if_drv_flags sc \<and> sc_cap sc' = sc_cap sc \<and>
    rx_body P E sc status =
      Delivered sc' (ucast (bus_read_8 E (butlast (trace sc')) (RSR_OFFSET P)))"
proof -
  let ?L = "rx_length P E sc status"
  let ?rnd = "((?L - 1) OR 7) + 1"
  let ?sc0 = "sc\<lparr>trace := trace sc @ rx_header P E sc status @ [Getcl True]\<rparr>"
  let ?m1 = "m0\<lparr>m_data := m_data m0 + unat (ETHER_ALIGN P)\<rparr>"
  let ?start = "RXBUFF_OFFSET P + push_bit 11 (rx_buf P status AND 7)"
  from rx_copy_from_0 [OF round8_dvd, where m = ?m1 and E = E and start = ?start
      and L1 = ?L and sc = ?sc0]
  obtain vs m1 where vs: "length vs = unat ?rnd div 8"
    "\<forall>j<length vs. \<exists>h. vs ! j = bus_read_8 E h (?start + 8 * word_of_nat j)"
    "\<forall>a. byte_get m1 a =
           (if m_data ?m1 \<le> a \<and> a < m_data ?m1 + unat ?rnd
            then le_byte (vs ! ((a - m_data ?m1) div 8)) ((a - m_data ?m1) mod 8)
            else byte_get ?m1 a)"
    "m_data m1 = m_data ?m1" "m_len m1 = m_len ?m1" "m_pkthdr_len m1 = m_pkthdr_len ?m1"
    "m_pkthdr_rcvif m1 = m_pkthdr_rcvif ?m1"
    "length (m_ext_buf m1) = length (m_ext_buf ?m1)"
    "rx_copy E ?start ?rnd 0 ?sc0 ?m1 =
          (?sc0\<lparr>trace := trace ?sc0 @
             map (\<lambda>j. RegRead (?start + 8 * word_of_nat j) (vs ! j)) [0..<length vs]\<rparr>, m1)"
    by (elim exE conjE) (rule that)
  define m where "m = m1\<lparr>m_pkthdr_rcvif := SC_ifp, m_len := ?L, m_pkthdr_len := ?L\<rparr>"
  define h where "h = trace sc @ rx_header P E sc status @ [Getcl True] @
      map (\<lambda>j. RegRead (?start + 8 * word_of_nat j) (vs ! j)) [0..<length vs] @
      [RegWrite (RSR_OFFSET P) (ucast (rx_buf P status + 1)), IfInput m]"
  define sc' where "sc' = sc\<lparr>if_counters := (if_counters sc)
               (IFCOUNTER_IPACKETS := if_counters sc IFCOUNTER_IPACKETS + 1),
            trace := h @ [RegRead (RSR_OFFSET P) (bus_read_8 E h (RSR_OFFSET P))]\<rparr>"
  have bl: "butlast (trace sc') = h" by (simp add: sc'_def)
  have body: "rx_body P E sc status = Delivered sc' (ucast (bus_read_8 E h (RSR_OFFSET P)))"
    by (simp only: rx_body_accepted_some [OF assms] vs(9)) (simp add: Let_def sc'_def h_def m_def)
  have tr: "trace sc' = h @ [RegRead (RSR_OFFSET P) (bus_read_8 E h (RSR_OFFSET P))]"
    by (simp add: sc'_def)
  have bg: "byte_get m a = byte_get m1 a" "byte_get ?m1 a = byte_get m0 a" for a
    by (simp_all add: m_def byte_get_def)
  have bts: "\<forall>a. byte_get m a =
       (if m_data m0 + unat (ETHER_ALIGN P) \<le> a \<and>
           a < m_data m0 + unat (ETHER_ALIGN P) + unat ?rnd
        then le_byte (vs ! ((a - (m_data m0 + unat (ETHER_ALIGN P))) div 8))
               ((a - (m_data m0 + unat (ETHER_ALIGN P))) mod 8)
        else byte_get m0 a)"
    using vs(3) by (simp add: bg)
  have fl: "m_data m = m_data m0 + unat (ETHER_ALIGN P)" "m_len m = ?L" "m_pkthdr_len m = ?L"
    "m_pkthdr_rcvif m = SC_ifp" "length (m_ext_buf m) = length (m_ext_buf m0)"
    using vs(4) vs(8) by (simp_all add: m_def)
  have sf: "if_counters sc' =
      (if_counters sc)(IFCOUNTER_IPACKETS := if_counters sc IFCOUNTER_IPACKETS + 1)"
    "if_drv_flags sc' = if_drv_flags sc" "sc_cap sc' = sc_cap sc"
    by (simp_all add: sc'_def)
  show ?thesis
    apply (rule exI [of _ vs], rule exI [of _ m], rule exI [of _ sc'])
    unfolding bl
    using vs(1) vs(2) bts fl sf body tr
    apply (simp add: h_def)
    done
qed

subsection \<open>The receive loop\<close>

lemma rx_loop_step:
  assumes "status AND RSR_RECV_DONE_MASK P \<noteq> 0"
  shows "rx_body P E sc status = Discarded sc' status' \<Longrightarrow>
           rx_loop P E sc status = rx_loop P E sc' status'"
    and "rx_body P E sc status = Delivered sc' status' \<Longrightarrow>
           rx_loop P E sc status = rx_loop P E sc' status'"
    and "rx_body P E sc status = Aborted sc' \<Longrightarrow>
           rx_loop P E sc status = Some (True, sc')"
  using assms by (simp_all add: rx_loop.simps [of P E sc status])

lemma rx_loop_exit:
  "status AND RSR_RECV_DONE_MASK P = 0 \<Longrightarrow> rx_loop P E sc status = Some (False, sc)"
  by (simp add: rx_loop.simps [of P E sc status])

lemma rx_iterate_loop:
  "rx_iterate P E n sc status = Some (sc', status') \<Longrightarrow>
     rx_loop P E sc status = rx_loop P E sc' status'"
proof (induction n arbitrary: sc status)
  case 0
  then show ?case by simp
next
  case (Suc n)
  from Suc.prems have d: "status AND RSR_RECV_DONE_MASK P \<noteq> 0"
    by (auto split: if_splits)
  show ?case
  proof (cases "rx_body P E sc status")
    case (Discarded sc1 s1)
    with Suc.prems d have "rx_iterate P E n sc1 s1 = Some (sc', status')" by simp
    then have "rx_loop P E sc1 s1 = rx_loop P E sc' status'" by (rule Suc.IH)
    then show ?thesis using rx_loop_step(1) [OF d Discarded] by simp
  next
    case (Aborted sc1)
    with Suc.prems d show ?thesis by simp
  next
    case (Delivered sc1 s1)
    with Suc.prems d have "rx_iterate P E n sc1 s1 = Some (sc', status')" by simp
    then have "rx_loop P E sc1 s1 = rx_loop P E sc' status'" by (rule Suc.IH)
    then show ?thesis using rx_loop_step(2) [OF d Delivered] by simp
  qed
qed

subsection \<open>Events added to a trace\<close>

lemma added_append: "trace sc' = trace sc @ es \<Longrightarrow> added sc sc' = es"
  by (simp add: added_def)

lemma filter_reads [simp]:
  "filter is_write (map (\<lambda>j. RegRead (f j) (g j)) js) = []"
  "filter is_input (map (\<lambda>j. RegRead (f j) (g j)) js) = []"
  by (induction js) simp_all

subsection \<open>The transmit copy loop\<close>








subsection \<open>Delivered frames, and the windows of different slots\<close>

lemma inputs_append: "inputs (xs @ ys) = inputs xs @ inputs ys"
  by (induction xs rule: inputs.induct) simp_all

lemma inputs_reads: "inputs (map (\<lambda>j. RegRead (f j) (g j)) js) = []"
  by (induction js) simp_all



lemma window_off:
  assumes "j < 256"
  shows "unat (0x5800 + 8 * word_of_nat j :: 32 word) = 22528 + 8 * j"
proof -
  have "(0x5800 + 8 * word_of_nat j :: 32 word) = word_of_nat (22528 + 8 * j)" by simp
  also have "unat \<dots> = 22528 + 8 * j"
    using assms by (simp only: unat_of_nat) simp
  finally show ?thesis .
qed

lemma stuck_dev_window:
  assumes "j < 256"
  shows "bus_read_8 (stuck_dev len) h (0x5800 + 8 * word_of_nat j) = 0x1122334455667788"
proof -
  let ?o = "0x5800 + 8 * word_of_nat j :: 32 word"
  have u: "unat ?o = 22528 + 8 * j" by (rule window_off [OF assms])
  have "unat ?o \<noteq> unat (0x830 :: 32 word)" "unat ?o \<noteq> unat (0x838 :: 32 word)"
    "unat ?o \<noteq> unat (0x858 :: 32 word)"
    unfolding u by simp_all
  then have "?o \<noteq> 0x830" "?o \<noteq> 0x838" "?o \<noteq> 0x858" by fastforce+
  then show ?thesis by (simp add: stuck_dev_def)
qed

subsection \<open>Byte swaps and little-endian memory\<close>

lemma byte_masks:
  "(0xff00 :: 32 word) = push_bit 8 (mask 8)"
  "(0xff0000 :: 32 word) = push_bit 16 (mask 8)"
  by (simp_all add: mask_eq_exp_minus_1 push_bit_eq_mult)

lemma le_bytes_bswap32:
  "le_bytes (bswap32 x) =
     [ucast (drop_bit 24 x), ucast (drop_bit 16 x), ucast (drop_bit 8 x), ucast x]"
  unfolding le_bytes_def bswap32_def list.inject byte_masks
  by (intro conjI refl; rule bit_word_eqI; auto simp: bit_simps dest: bit_imp_le_length)

lemma le_bytes_bswap16:
  "take 2 (le_bytes (ucast (bswap16 x))) = [ucast (drop_bit 8 x), ucast x]"
  unfolding le_bytes_def bswap16_def
  by (simp; intro conjI; rule bit_word_eqI; auto simp: bit_simps dest: bit_imp_le_length)

lemma list6:
  assumes "length (mac :: 'a list) = 6"
  obtains a b c d e f where "mac = [a, b, c, d, e, f]"
  using assms by (auto simp: length_Suc_conv numeral_eq_Suc)

subsection \<open>The last write to a register, and word facts\<close>

lemma last_write_snoc:
  "last_write off (h @ [RegWrite off v]) = Some v"
  "last_write off (h @ [RegRead a v]) = last_write off h"
  "last_write off (h @ [DevPrintf msg]) = last_write off h"
  by (induction off h rule: last_write.induct) simp_all


lemma and_not_or_self: "(x AND NOT r) OR r = x OR (r :: 'a::len word)"
  by (rule bit_word_eqI) (auto simp: bit_simps)

lemma sub4_wraps:
  assumes "(M :: 32 word) < 4"
  shows "unat (M - 4) = unat M + 2 ^ 32 - 4" and "C < 0xFFFFFFFC \<Longrightarrow> C < M - 4"
proof -
  from assms have m: "unat M < 4" by (simp add: word_less_nat_alt)
  have "unat (M - 4) = (if unat (4 :: 32 word) \<le> unat M then unat M - unat (4 :: 32 word)
      else unat M + 2 ^ size M - unat (4 :: 32 word))"
    by (rule unat_sub_if_size)
  also have "\<dots> = unat M + 2 ^ 32 - 4" using m by (simp add: word_size)
  finally show u: "unat (M - 4) = unat M + 2 ^ 32 - 4" .
  assume "C < 0xFFFFFFFC"
  then have "unat C < 4294967292" by (simp add: word_less_nat_alt)
  then show "C < M - 4" using u by (simp add: word_less_nat_alt)
qed

subsection \<open>The example device\<close>

lemma test_dev_header:
  "rx_buf lowrisc 0x1003 = 3"
  "rx_errs lowrisc (test_dev errs len mb) sc0 = ucast errs"
  "rx_masked_length lowrisc (test_dev errs len mb) sc0 0x1003 = ucast (len AND 0xFFF)"
  "rx_header lowrisc (test_dev errs len mb) sc0 0x1003 = [RegRead 0x838 errs, RegRead 0x858 len]"
  by (simp_all add: rx_buf_def rx_errs_def rx_errs64_def rx_masked_length_def rx_len64_def
      rx_header_def lowrisc_def test_dev_def sc0_def)

lemma test_dev_length:
  "rx_length lowrisc (test_dev errs len mb) sc0 0x1003 = ucast (len AND 0xFFF) - 4"
  by (simp add: rx_length_def test_dev_header) (simp add: lowrisc_def sc0_def)

lemma stuck_dev_header:
  "rx_errs lowrisc (stuck_dev len) sc = 0"
  "rx_masked_length lowrisc (stuck_dev len) sc 0x1003 = ucast (len AND 0xFFF)"
  "rx_header lowrisc (stuck_dev len) sc 0x1003 = [RegRead 0x838 0, RegRead 0x858 len]"
  by (simp_all add: rx_buf_def rx_errs_def rx_errs64_def rx_masked_length_def rx_len64_def
      rx_header_def lowrisc_def stuck_dev_def)

lemma stuck_dev_length:
  "sc_cap sc AND 1 \<noteq> 0 \<Longrightarrow>
     rx_length lowrisc (stuck_dev len) sc 0x1003 = ucast (len AND 0xFFF) - 4"
  by (simp add: rx_length_def stuck_dev_header) (simp add: lowrisc_def)

lemma mb0_byte: "byte_get mb0 a = 0"
  by (simp add: byte_get_def mb0_def)

lemma stuck_dev_pass:
  assumes cap: "sc_cap sc AND 1 \<noteq> 0"
    and L: "L = ucast (len AND 0xFFF) - 4" and le: "L \<le> (2046 :: 32 word)"
  shows "\<exists>m sc'. rx_body lowrisc (stuck_dev len) sc 0x1003 = Delivered sc' 0x1003 \<and>
     trace sc' = trace sc @ [RegRead 0x838 0, RegRead 0x858 len, Getcl True] @
        map (\<lambda>j. RegRead (0x5800 + 8 * word_of_nat j) 0x1122334455667788)
          [0..<(unat L + 7) div 8] @
        [RegWrite 0x830 4, IfInput m, RegRead 0x830 0x1003] \<and>
     (\<forall>a. byte_get m a =
        (if 2 \<le> a \<and> a < 2 + 8 * ((unat L + 7) div 8)
         then le_byte 0x1122334455667788 ((a - 2) mod 8) else 0)) \<and>
     m_data m = 2 \<and> m_len m = L \<and> m_pkthdr_len m = L \<and> m_pkthdr_rcvif m = SC_ifp \<and>
     length (m_ext_buf m) = 2048 \<and>
     sc_cap sc' = sc_cap sc \<and> if_drv_flags sc' = if_drv_flags sc \<and>
     if_counters sc' =
       (if_counters sc)(IFCOUNTER_IPACKETS := if_counters sc IFCOUNTER_IPACKETS + 1)"
proof -
  let ?E = "stuck_dev len"
  let ?n = "(unat L + 7) div 8"
  have len: "rx_length lowrisc ?E sc 0x1003 = L"
    by (simp only: stuck_dev_length [OF cap] L)
  have uL: "unat L \<le> 2046" using le by (simp add: word_le_nat_alt)
  have le': "L \<le> 0xFFFFFFF8" using uL by (simp add: word_le_nat_alt)
  have rnd: "unat (((L - 1) OR 7) + 1) = 8 * ?n" by (rule round8_unat [OF le'])
  have n: "?n \<le> 256" using uL by simp
  have nd: "\<not> rx_discard lowrisc (rx_length lowrisc ?E sc 0x1003) (rx_buf lowrisc 0x1003)
      (rx_errs lowrisc ?E sc)"
    unfolding len using le
    by (simp add: rx_discard_def test_dev_header(1) stuck_dev_header) (simp add: lowrisc_def)
  have gc: "m_getcl ?E (trace sc @ rx_header lowrisc ?E sc 0x1003) = Some mb0"
    by (simp add: stuck_dev_def)
  have st: "RXBUFF_OFFSET lowrisc + push_bit 11 (rx_buf lowrisc 0x1003 AND 7) = 0x5800"
    by (simp add: test_dev_header(1)) (simp add: lowrisc_def)
  from rx_body_delivered [OF nd gc]
  obtain vs m sc' where
    d1: "length vs = unat (((L - 1) OR 7) + 1) div 8"
    and d2: "\<forall>j<length vs. \<exists>h. vs ! j = bus_read_8 ?E h (0x5800 + 8 * word_of_nat j)"
    and d3: "\<forall>a. byte_get m a =
       (if m_data mb0 + unat (ETHER_ALIGN lowrisc) \<le> a \<and>
           a < m_data mb0 + unat (ETHER_ALIGN lowrisc) + unat (((L - 1) OR 7) + 1)
        then le_byte (vs ! ((a - (m_data mb0 + unat (ETHER_ALIGN lowrisc))) div 8))
               ((a - (m_data mb0 + unat (ETHER_ALIGN lowrisc))) mod 8)
        else byte_get mb0 a)"
    and d4: "m_data m = m_data mb0 + unat (ETHER_ALIGN lowrisc)" "m_len m = L"
      "m_pkthdr_len m = L" "m_pkthdr_rcvif m = SC_ifp"
      "length (m_ext_buf m) = length (m_ext_buf mb0)"
    and d5: "trace sc' = trace sc @ rx_header lowrisc ?E sc 0x1003 @ [Getcl True] @
      map (\<lambda>j. RegRead (0x5800 + 8 * word_of_nat j) (vs ! j)) [0..<length vs] @
      [RegWrite (RSR_OFFSET lowrisc) (ucast (rx_buf lowrisc 0x1003 + 1)),
       IfInput m,
       RegRead (RSR_OFFSET lowrisc) (bus_read_8 ?E (butlast (trace sc')) (RSR_OFFSET lowrisc))]"
    and d6: "if_counters sc' =
      (if_counters sc)(IFCOUNTER_IPACKETS := if_counters sc IFCOUNTER_IPACKETS + 1)"
      "if_drv_flags sc' = if_drv_flags sc" "sc_cap sc' = sc_cap sc"
    and d7: "rx_body lowrisc ?E sc 0x1003 =
      Delivered sc' (ucast (bus_read_8 ?E (butlast (trace sc')) (RSR_OFFSET lowrisc)))"
    unfolding len st by (elim exE conjE) (rule that)
  have lv: "length vs = ?n" using d1 by (simp add: rnd)
  have vj: "vs ! j = 0x1122334455667788" if "j < length vs" for j
  proof -
    from that n lv have j: "j < 256" by simp
    from d2 that obtain h where "vs ! j = bus_read_8 ?E h (0x5800 + 8 * word_of_nat j)" by blast
    then show ?thesis by (simp only: stuck_dev_window [OF j])
  qed
  have rsr: "bus_read_8 ?E h (RSR_OFFSET lowrisc) = 0x1003" for h
    by (simp add: stuck_dev_def lowrisc_def)
  have body: "rx_body lowrisc ?E sc 0x1003 = Delivered sc' 0x1003"
    by (simp only: d7 rsr) simp
  have mp: "map (\<lambda>j. RegRead (0x5800 + 8 * word_of_nat j) (vs ! j)) [0..<length vs] =
      map (\<lambda>j. RegRead (0x5800 + 8 * word_of_nat j) 0x1122334455667788) [0..<?n]"
    unfolding lv [symmetric] by (rule map_cong [OF refl]) (simp add: vj)
  have tr: "trace sc' = trace sc @ [RegRead 0x838 0, RegRead 0x858 len, Getcl True] @
        map (\<lambda>j. RegRead (0x5800 + 8 * word_of_nat j) 0x1122334455667788) [0..<?n] @
        [RegWrite 0x830 4, IfInput m, RegRead 0x830 0x1003]"
    by (subst d5, simp only: mp rsr stuck_dev_header test_dev_header(1))
      (simp add: lowrisc_def)
  have al: "m_data mb0 + unat (ETHER_ALIGN lowrisc) = 2" by (simp add: mb0_def lowrisc_def)
  have bts: "byte_get m a =
        (if 2 \<le> a \<and> a < 2 + 8 * ?n
         then le_byte 0x1122334455667788 ((a - 2) mod 8) else 0)" for a
  proof -
    have e: "byte_get m a =
       (if 2 \<le> a \<and> a < 2 + 8 * ?n
        then le_byte (vs ! ((a - 2) div 8)) ((a - 2) mod 8)
        else byte_get mb0 a)"
      using d3 [rule_format, of a] unfolding al rnd .
    show ?thesis
    proof (cases "2 \<le> a \<and> a < 2 + 8 * ?n")
      case True
      have "2 \<le> a \<and> a < 2 + 8 * k \<Longrightarrow> a - 2 < k * 8" for k :: nat by linarith
      from this [OF True] have "a - 2 < ?n * 8" .
      then have "(a - 2) div 8 < ?n" by (rule less_mult_imp_div_less)
      then have "(a - 2) div 8 < length vs" by (simp only: lv)
      then have v: "vs ! ((a - 2) div 8) = 0x1122334455667788" by (rule vj)
      show ?thesis by (simp only: e v mb0_byte)
    next
      case False
      from False show ?thesis by (simp only: e if_False mb0_byte)
    qed
  qed
  have fl: "m_data m = 2" "length (m_ext_buf m) = 2048"
    using d4(1) d4(5) by (simp_all add: al) (simp add: mb0_def)
  from body tr bts fl d4(2-4) d6 show ?thesis by blast
qed

section \<open>The claims\<close>

subsection \<open>C1: validation of a drained slot\<close>

text \<open>
  C1 as the specification states it: a drained slot with slot index \<open>s\<close>, length \<open>L\<close>
  (after the trailer subtraction) and error register \<open>E\<close> is accepted if and only if
  \<open>L \<le> MCLBYTES - ETHER_ALIGN\<close> and \<^verbatim>\<open>(BASE_ERR | (BASE_ERR << s)) & E == 0\<close>. This fails:
  with slot 3 ready, a length register of 64 (so \<open>L = 60\<close>) and an error register of
  \<open>0x101\<close>, the driver accepts the frame, since \<^verbatim>\<open>0x101 << 3 = 0x808\<close> has no bit in
  common with \<open>0x101\<close>, while the stated mask \<open>0x909\<close> has.
\<close>

theorem rx_validation_counterexample:
  "rx_accepted (rx_body lowrisc (test_dev 0x101 64 (Some mb0)) sc0 0x1003) \<and>
   \<not> spec_accept lowrisc (rx_length lowrisc (test_dev 0x101 64 (Some mb0)) sc0 0x1003)
        (rx_buf lowrisc 0x1003) (rx_errs lowrisc (test_dev 0x101 64 (Some mb0)) sc0) \<and>
   rx_length lowrisc (test_dev 0x101 64 (Some mb0)) sc0 0x1003 = 60 \<and>
   rx_buf lowrisc 0x1003 = 3 \<and>
   rx_errs lowrisc (test_dev 0x101 64 (Some mb0)) sc0 = 0x101"
  by (simp add: rx_accepted_discard test_dev_length test_dev_header rx_discard_def
      spec_accept_def) (simp add: lowrisc_def)

text \<open>
  C1, amended: one pass through the loop body at \<open>status\<close> accepts the frame (does not take
  the discard path) if and only if the length \<open>L\<close>, after the trailer subtraction, is at
  most \<open>MCLBYTES - ETHER_ALIGN\<close> and \<^verbatim>\<open>(0x101 << (s & 7)) & E == 0\<close>, where
  \<open>s = status & RSR_RECV_FIRST_MASK\<close> and \<open>E\<close> is the error register as read: the mask is
  the base pattern shifted by the slot position, not combined with the unshifted pattern.
\<close>

theorem rx_validation:
  "rx_accepted (rx_body P E sc status) \<longleftrightarrow>
     rx_length P E sc status \<le> MCLBYTES P - ETHER_ALIGN P \<and>
     push_bit (unat (rx_buf P status AND 7)) 0x101 AND rx_errs P E sc = 0"
  by (simp add: rx_accepted_discard rx_discard_def not_less)

theorem rx_validation_witness:
  "rx_accepted (rx_body lowrisc (test_dev 0x101 64 (Some mb0)) sc0 0x1003) \<and>
   \<not> rx_accepted (rx_body lowrisc (test_dev 0x108 64 (Some mb0)) sc0 0x1003) \<and>
   \<not> rx_accepted (rx_body lowrisc (test_dev 0 2 (Some mb0)) sc0 0x1003)"
  using rx_validation [of lowrisc "test_dev 0x101 64 (Some mb0)" sc0 "0x1003"]
    rx_validation [of lowrisc "test_dev 0x108 64 (Some mb0)" sc0 "0x1003"]
    rx_validation [of lowrisc "test_dev 0 2 (Some mb0)" sc0 "0x1003"]
  by (simp add: test_dev_length test_dev_header) (simp add: lowrisc_def)

subsection \<open>C2: the discard path\<close>

text \<open>
  C2: in every pass through the loop body in which validation rejects the slot's frame,
  the driver increments the input-error counter by one, writes \<open>buf + 1\<close> (the slot index
  plus one, not the status it read) to the receive-status register, reads the status
  register again and goes on with the loop at that status; it calls neither the allocator
  nor the input routine, and the write to the status register is its only register write.
\<close>

theorem rx_reject_iteration:
  assumes "rx_discard P (rx_length P E sc status) (rx_buf P status) (rx_errs P E sc)"
  shows "\<exists>sc' s.
    rx_body P E sc status = Discarded sc' (ucast s) \<and>
    trace sc' = trace sc @ rx_header P E sc status @
      [DevPrintf ''Receive discarded\<newline>'',
       RegWrite (RSR_OFFSET P) (ucast (rx_buf P status + 1)),
       RegRead (RSR_OFFSET P) s] \<and>
    if_counters sc' =
      (if_counters sc)(IFCOUNTER_IERRORS := if_counters sc IFCOUNTER_IERRORS + 1) \<and>
    if_drv_flags sc' = if_drv_flags sc \<and> sc_cap sc' = sc_cap sc \<and>
    filter is_getcl (added sc sc') = [] \<and>
    filter is_input (added sc sc') = [] \<and>
    filter is_write (added sc sc') = [RegWrite (RSR_OFFSET P) (ucast (rx_buf P status + 1))] \<and>
    (status AND RSR_RECV_DONE_MASK P \<noteq> 0 \<longrightarrow>
       rx_loop P E sc status = rx_loop P E sc' (ucast s))"
proof -
  define s where "s = bus_read_8 E (trace sc @ rx_header P E sc status @
      [DevPrintf ''Receive discarded\<newline>'',
       RegWrite (RSR_OFFSET P) (ucast (rx_buf P status + 1))]) (RSR_OFFSET P)"
  define sc' where "sc' = sc\<lparr>if_counters := (if_counters sc)
             (IFCOUNTER_IERRORS := if_counters sc IFCOUNTER_IERRORS + 1),
          trace := trace sc @ rx_header P E sc status @
            [DevPrintf ''Receive discarded\<newline>'',
             RegWrite (RSR_OFFSET P) (ucast (rx_buf P status + 1)),
             RegRead (RSR_OFFSET P) s]\<rparr>"
  have body: "rx_body P E sc status = Discarded sc' (ucast s)"
    unfolding sc'_def s_def by (rule rx_body_discarded [OF assms])
  have tr: "trace sc' = trace sc @ rx_header P E sc status @
      [DevPrintf ''Receive discarded\<newline>'',
       RegWrite (RSR_OFFSET P) (ucast (rx_buf P status + 1)),
       RegRead (RSR_OFFSET P) s]"
    by (simp add: sc'_def)
  have ad: "added sc sc' = rx_header P E sc status @
      [DevPrintf ''Receive discarded\<newline>'',
       RegWrite (RSR_OFFSET P) (ucast (rx_buf P status + 1)),
       RegRead (RSR_OFFSET P) s]"
    by (rule added_append [OF tr])
  have cnt: "if_counters sc' =
      (if_counters sc)(IFCOUNTER_IERRORS := if_counters sc IFCOUNTER_IERRORS + 1)"
    "if_drv_flags sc' = if_drv_flags sc" "sc_cap sc' = sc_cap sc"
    by (simp_all add: sc'_def)
  have ev: "filter is_getcl (added sc sc') = []" "filter is_input (added sc sc') = []"
    "filter is_write (added sc sc') = [RegWrite (RSR_OFFSET P) (ucast (rx_buf P status + 1))]"
    by (simp_all add: ad rx_header_def)
  have lp: "status AND RSR_RECV_DONE_MASK P \<noteq> 0 \<longrightarrow>
       rx_loop P E sc status = rx_loop P E sc' (ucast s)"
    using rx_loop_step(1) [OF _ body] by simp
  from body tr cnt ev lp show ?thesis by blast
qed

theorem rx_reject_iteration_witness:
  "rx_discard lowrisc (rx_length lowrisc (test_dev 0x108 64 (Some mb0)) sc0 0x1003)
     (rx_buf lowrisc 0x1003) (rx_errs lowrisc (test_dev 0x108 64 (Some mb0)) sc0) \<and>
   (\<exists>sc' s. rx_body lowrisc (test_dev 0x108 64 (Some mb0)) sc0 0x1003 = Discarded sc' (ucast s) \<and>
      trace sc' = [RegRead 0x838 0x108, RegRead 0x858 64, DevPrintf ''Receive discarded\<newline>'',
        RegWrite 0x830 4, RegRead 0x830 s] \<and>
      if_counters sc' IFCOUNTER_IERRORS = 1)"
proof -
  have h: "rx_discard lowrisc (rx_length lowrisc (test_dev 0x108 64 (Some mb0)) sc0 0x1003)
     (rx_buf lowrisc 0x1003) (rx_errs lowrisc (test_dev 0x108 64 (Some mb0)) sc0)"
    by (simp add: test_dev_length test_dev_header rx_discard_def)
  from rx_reject_iteration [OF h] obtain sc' s where
    "rx_body lowrisc (test_dev 0x108 64 (Some mb0)) sc0 0x1003 = Discarded sc' (ucast s)"
    "trace sc' = trace sc0 @ rx_header lowrisc (test_dev 0x108 64 (Some mb0)) sc0 0x1003 @
      [DevPrintf ''Receive discarded\<newline>'',
       RegWrite (RSR_OFFSET lowrisc) (ucast (rx_buf lowrisc 0x1003 + 1)),
       RegRead (RSR_OFFSET lowrisc) s]"
    "if_counters sc' =
      (if_counters sc0)(IFCOUNTER_IERRORS := if_counters sc0 IFCOUNTER_IERRORS + 1)"
    by blast
  then have "rx_body lowrisc (test_dev 0x108 64 (Some mb0)) sc0 0x1003 = Discarded sc' (ucast s) \<and>
      trace sc' = [RegRead 0x838 0x108, RegRead 0x858 64, DevPrintf ''Receive discarded\<newline>'',
        RegWrite 0x830 4, RegRead 0x830 s] \<and>
      if_counters sc' IFCOUNTER_IERRORS = 1"
    by (simp add: test_dev_header) (simp add: lowrisc_def sc0_def)
  with h show ?thesis by blast
qed

subsection \<open>C3: allocation failure\<close>

text \<open>
  C3: take any pass through the loop body that a run of \<^verbatim>\<open>lre_rx_thread\<close> reaches (after
  \<open>n\<close> earlier passes), in which the frame passes validation and \<^verbatim>\<open>m_getcl\<close> returns
  \<^verbatim>\<open>NULL\<close>. The driver increments the drop counter by one and the thread returns at
  once: after the two reads of the pass it performs no register access at all, so the
  receive-status register is not written and the interrupt enable bit of the control
  register is not set again, and nothing is handed to the input routine.
\<close>

theorem rx_nomem_iteration:
  assumes "GETREG E sc_in (RSR_OFFSET P) = (s_in, sc_first)"
    and "rx_iterate P E n sc_first (ucast s_in) = Some (sc, status)"
    and "status AND RSR_RECV_DONE_MASK P \<noteq> 0"
    and "\<not> rx_discard P (rx_length P E sc status) (rx_buf P status) (rx_errs P E sc)"
    and "m_getcl E (trace sc @ rx_header P E sc status) = None"
  shows "\<exists>sc'.
    rx_body P E sc status = Aborted sc' \<and>
    trace sc' = trace sc @ rx_header P E sc status @
      [Getcl False, DevPrintf ''no memory for receive mbuf.\<newline>''] \<and>
    if_counters sc' =
      (if_counters sc)(IFCOUNTER_IQDROPS := if_counters sc IFCOUNTER_IQDROPS + 1) \<and>
    if_drv_flags sc' = if_drv_flags sc \<and> sc_cap sc' = sc_cap sc \<and>
    filter is_write (added sc sc') = [] \<and>
    filter is_input (added sc sc') = [] \<and>
    rx_loop P E sc status = Some (True, sc') \<and>
    lre_rx_thread P E sc_in = Some sc'"
proof -
  define sc' where "sc' = sc\<lparr>if_counters := (if_counters sc)
             (IFCOUNTER_IQDROPS := if_counters sc IFCOUNTER_IQDROPS + 1),
          trace := trace sc @ rx_header P E sc status @
            [Getcl False, DevPrintf ''no memory for receive mbuf.\<newline>'']\<rparr>"
  have body: "rx_body P E sc status = Aborted sc'"
    unfolding sc'_def by (rule rx_body_aborted [OF assms(4) assms(5)])
  have tr: "trace sc' = trace sc @ rx_header P E sc status @
      [Getcl False, DevPrintf ''no memory for receive mbuf.\<newline>'']"
    by (simp add: sc'_def)
  have cnt: "if_counters sc' =
      (if_counters sc)(IFCOUNTER_IQDROPS := if_counters sc IFCOUNTER_IQDROPS + 1)"
    "if_drv_flags sc' = if_drv_flags sc" "sc_cap sc' = sc_cap sc"
    by (simp_all add: sc'_def)
  have ev: "filter is_write (added sc sc') = []" "filter is_input (added sc sc') = []"
    by (simp_all add: added_append [OF tr] rx_header_def)
  have lp: "rx_loop P E sc status = Some (True, sc')"
    by (rule rx_loop_step(3) [OF assms(3) body])
  have "rx_loop P E sc_first (ucast s_in) = Some (True, sc')"
    using rx_iterate_loop [OF assms(2)] lp by simp
  then have th: "lre_rx_thread P E sc_in = Some sc'"
    by (simp add: lre_rx_thread_def assms(1))
  from body tr cnt ev lp th show ?thesis by blast
qed

theorem rx_nomem_iteration_witness:
  "GETREG (test_dev 0 64 None) sc0 (RSR_OFFSET lowrisc) =
     (0x1003, sc0\<lparr>trace := [RegRead 0x830 0x1003]\<rparr>) \<and>
   rx_iterate lowrisc (test_dev 0 64 None) 0 (sc0\<lparr>trace := [RegRead 0x830 0x1003]\<rparr>)
     (ucast (0x1003 :: 64 word)) = Some (sc0\<lparr>trace := [RegRead 0x830 0x1003]\<rparr>, 0x1003) \<and>
   (0x1003 :: 32 word) AND RSR_RECV_DONE_MASK lowrisc \<noteq> 0 \<and>
   \<not> rx_discard lowrisc
     (rx_length lowrisc (test_dev 0 64 None) (sc0\<lparr>trace := [RegRead 0x830 0x1003]\<rparr>) 0x1003)
     (rx_buf lowrisc 0x1003)
     (rx_errs lowrisc (test_dev 0 64 None) (sc0\<lparr>trace := [RegRead 0x830 0x1003]\<rparr>)) \<and>
   m_getcl (test_dev 0 64 None) (trace (sc0\<lparr>trace := [RegRead 0x830 0x1003]\<rparr>) @
     rx_header lowrisc (test_dev 0 64 None) (sc0\<lparr>trace := [RegRead 0x830 0x1003]\<rparr>) 0x1003) = None \<and>
   (\<exists>sc'. lre_rx_thread lowrisc (test_dev 0 64 None) sc0 = Some sc' \<and>
      trace sc' = [RegRead 0x830 0x1003, RegRead 0x838 0, RegRead 0x858 64, Getcl False,
        DevPrintf ''no memory for receive mbuf.\<newline>''] \<and>
      if_counters sc' IFCOUNTER_IQDROPS = 1)"
proof -
  let ?E = "test_dev 0 64 None"
  let ?sc = "sc0\<lparr>trace := [RegRead 0x830 0x1003]\<rparr>"
  have h1: "GETREG ?E sc0 (RSR_OFFSET lowrisc) = (0x1003, ?sc)"
    by (simp add: GETREG_def emit_def test_dev_def lowrisc_def sc0_def)
  have h2: "rx_iterate lowrisc ?E 0 ?sc (ucast (0x1003 :: 64 word)) = Some (?sc, 0x1003)"
    by simp
  have h3: "(0x1003 :: 32 word) AND RSR_RECV_DONE_MASK lowrisc \<noteq> 0"
    by (simp add: lowrisc_def)
  have hd: "rx_header lowrisc ?E ?sc 0x1003 = [RegRead 0x838 0, RegRead 0x858 64]"
    "rx_length lowrisc ?E ?sc 0x1003 = 60" "rx_buf lowrisc 0x1003 = 3"
    "rx_errs lowrisc ?E ?sc = 0"
    by (simp_all add: rx_buf_def rx_errs_def rx_errs64_def rx_length_def rx_masked_length_def
        rx_len64_def rx_header_def lowrisc_def test_dev_def sc0_def)
  have h4: "\<not> rx_discard lowrisc (rx_length lowrisc ?E ?sc 0x1003) (rx_buf lowrisc 0x1003)
      (rx_errs lowrisc ?E ?sc)"
    by (simp add: hd rx_discard_def) (simp add: lowrisc_def)
  have h5: "m_getcl ?E (trace ?sc @ rx_header lowrisc ?E ?sc 0x1003) = None"
    by (simp add: test_dev_def)
  from rx_nomem_iteration [OF h1 h2 h3 h4 h5] obtain sc' where
    "lre_rx_thread lowrisc ?E sc0 = Some sc'"
    "trace sc' = trace ?sc @ rx_header lowrisc ?E ?sc 0x1003 @
      [Getcl False, DevPrintf ''no memory for receive mbuf.\<newline>'']"
    "if_counters sc' =
      (if_counters ?sc)(IFCOUNTER_IQDROPS := if_counters ?sc IFCOUNTER_IQDROPS + 1)"
    by blast
  then have "lre_rx_thread lowrisc ?E sc0 = Some sc' \<and>
      trace sc' = [RegRead 0x830 0x1003, RegRead 0x838 0, RegRead 0x858 64, Getcl False,
        DevPrintf ''no memory for receive mbuf.\<newline>''] \<and>
      if_counters sc' IFCOUNTER_IQDROPS = 1"
    by (simp add: hd) (simp add: sc0_def)
  with h1 h2 h3 h4 h5 show ?thesis by blast
qed

subsection \<open>C4: the ring advances before the frame is delivered\<close>




subsection \<open>C5: transmit on an interface that is not running\<close>

text \<open>
  C5: when \<^verbatim>\<open>IFF_DRV_RUNNING\<close> is not set in the driver flags, \<^verbatim>\<open>lre_transmit\<close> returns 0
  and its only action is to free the frame: it writes no device register, in particular
  neither the transmit buffer nor the transmit length, and it leaves every counter as it
  was.
\<close>

theorem tx_not_running:
  assumes "if_drv_flags sc AND IFF_DRV_RUNNING P \<noteq> IFF_DRV_RUNNING P"
  shows "lre_transmit P sc m = Some (0, sc\<lparr>trace := trace sc @ [Freem m]\<rparr>) \<and>
    filter is_write (added sc (snd (the (lre_transmit P sc m)))) = [] \<and>
    if_counters (snd (the (lre_transmit P sc m))) = if_counters sc"
  using assms by (simp add: lre_transmit_def m_freem_def emit_def added_def)

theorem tx_not_running_witness:
  "if_drv_flags (sc0\<lparr>if_drv_flags := 0\<rparr>) AND IFF_DRV_RUNNING lowrisc \<noteq> IFF_DRV_RUNNING lowrisc \<and>
   lre_transmit lowrisc (sc0\<lparr>if_drv_flags := 0\<rparr>) frame0 =
     Some (0, sc0\<lparr>if_drv_flags := 0, trace := [Freem frame0]\<rparr>)"
proof -
  have h: "if_drv_flags (sc0\<lparr>if_drv_flags := 0\<rparr>) AND IFF_DRV_RUNNING lowrisc \<noteq>
      IFF_DRV_RUNNING lowrisc"
    by (simp add: lowrisc_def)
  from tx_not_running [OF h, of frame0] h show ?thesis
    by (simp add: sc0_def)
qed

subsection \<open>C6: transmit on a running interface\<close>




subsection \<open>C7: the copy out of the receive window\<close>

text \<open>
  C7: an accepted frame of length \<open>L\<close> is copied, \<open>((L - 1) | 7) + 1\<close> bytes of it, from the
  window of its slot to the bytes from the data pointer on, which is \<open>ETHER_ALIGN\<close> bytes
  into the cluster (\<open>rx_body_delivered\<close>), and the frame records the length \<open>L\<close>. The bytes
  do not all land in the allocated buffer. With the kernel's cluster of 2048 bytes and pad
  of 2 bytes, slot 3 ready, no error bit and a length register of 2050, the length
  \<open>L = 2046\<close> passes the test of line 501, the loop reads 256 words of the window and
  stores 2048 bytes from offset 2 of the cluster on: the last word covers the offsets 2042
  to 2049, and its two most significant bytes, \<open>0x22\<close> and \<open>0x11\<close>, overwrite the first two
  bytes of the memory after the cluster.
\<close>

theorem rx_copy_overrun:
  "rx_length lowrisc (stuck_dev 2050) sc0 0x1003 = 2046 \<and>
   \<not> rx_discard lowrisc 2046 (rx_buf lowrisc 0x1003) (rx_errs lowrisc (stuck_dev 2050) sc0) \<and>
   m_getcl (stuck_dev 2050) (trace sc0 @ rx_header lowrisc (stuck_dev 2050) sc0 0x1003) =
     Some mb0 \<and>
   length (m_ext_buf mb0) = unat (MCLBYTES lowrisc) \<and>
   m_data mb0 = 0 \<and>
   over_pass = Delivered (rx_softc over_pass) 0x1003 \<and>
   inputs (trace (rx_softc over_pass)) = [over_frame] \<and>
   m_pkthdr_len over_frame = 2046 \<and>
   m_data over_frame = 2 \<and>
   length (m_ext_buf over_frame) = 2048 \<and>
   unat (((2046 - 1) OR 7) + 1 :: 32 word) = 2048 \<and>
   trace (rx_softc over_pass) =
     [RegRead 0x838 0, RegRead 0x858 2050, Getcl True] @
     map (\<lambda>j. RegRead (0x5800 + 8 * word_of_nat j) 0x1122334455667788) [0..<256] @
     [RegWrite 0x830 4, IfInput over_frame, RegRead 0x830 0x1003] \<and>
   m_after mb0 0 = 0 \<and> m_after mb0 1 = 0 \<and>
   m_after over_frame 0 = 0x22 \<and> m_after over_frame 1 = 0x11"
proof -
  have L: "(2046 :: 32 word) = ucast ((2050 :: 64 word) AND 0xFFF) - 4" by simp
  have le: "(2046 :: 32 word) \<le> 2046" by simp
  have n: "(unat (2046 :: 32 word) + 7) div 8 = 256" by simp
  have c0: "sc_cap sc0 AND 1 \<noteq> 0" by (simp add: sc0_def)
  from stuck_dev_pass [OF c0 L le] obtain m sc' where
    p: "rx_body lowrisc (stuck_dev 2050) sc0 0x1003 = Delivered sc' 0x1003"
    and t: "trace sc' = trace sc0 @ [RegRead 0x838 0, RegRead 0x858 2050, Getcl True] @
        map (\<lambda>j. RegRead (0x5800 + 8 * word_of_nat j) 0x1122334455667788) [0..<256] @
        [RegWrite 0x830 4, IfInput m, RegRead 0x830 0x1003]"
    and b: "\<forall>a. byte_get m a =
        (if 2 \<le> a \<and> a < 2 + 8 * 256
         then le_byte 0x1122334455667788 ((a - 2) mod 8) else 0)"
    and f: "m_data m = 2" "m_pkthdr_len m = 2046" "length (m_ext_buf m) = 2048"
    unfolding n by blast
  have op: "over_pass = Delivered sc' 0x1003" by (simp add: over_pass_def p)
  have i: "inputs (trace sc') = [m]"
    unfolding t inputs_append inputs_reads by (simp add: sc0_def)
  have of: "over_frame = m" by (simp add: over_frame_def op i)
  have a0: "m_after m 0 = byte_get m 2048" "m_after m 1 = byte_get m 2049"
    by (simp_all add: byte_get_def f(3))
  have b0: "byte_get m 2048 = 0x22" "byte_get m 2049 = 0x11"
    by (simp_all add: b le_byte_def)
  have rd: "trace sc' =
     [RegRead 0x838 0, RegRead 0x858 2050, Getcl True] @
     map (\<lambda>j. RegRead (0x5800 + 8 * word_of_nat j) 0x1122334455667788) [0..<256] @
     [RegWrite 0x830 4, IfInput m, RegRead 0x830 0x1003]"
    unfolding t by (simp add: sc0_def)
  have h1: "rx_length lowrisc (stuck_dev 2050) sc0 0x1003 = 2046"
    by (simp add: stuck_dev_length [OF c0])
  have h2: "\<not> rx_discard lowrisc 2046 (rx_buf lowrisc 0x1003) (rx_errs lowrisc (stuck_dev 2050) sc0)"
    by (simp add: rx_discard_def test_dev_header(1) stuck_dev_header) (simp add: lowrisc_def)
  have h3: "m_getcl (stuck_dev 2050) (trace sc0 @ rx_header lowrisc (stuck_dev 2050) sc0 0x1003) =
     Some mb0"
    by (simp add: stuck_dev_def)
  have h4: "length (m_ext_buf mb0) = unat (MCLBYTES lowrisc)" "m_data mb0 = 0"
    "m_after mb0 0 = 0" "m_after mb0 1 = 0"
    by (simp_all add: mb0_def lowrisc_def)
  have h5: "unat (((2046 - 1) OR 7) + 1 :: 32 word) = 2048" by simp
  show ?thesis
    unfolding of op rx_softc.simps
    using h1 h2 h3 h4 h5 i f a0 b0 by (simp only: rd) simp
qed

subsection \<open>C8: the MAC address\<close>

text \<open>
  C8: the six bytes of the MAC address are assembled from the two register reads of
  \<^verbatim>\<open>lre_attach\<close>: bytes 0 and 1 are the byte-swapped low 16 bits of the MAC-high register,
  masked with \<^verbatim>\<open>MACHI_MACADDR_MASK\<close>, and bytes 2 to 5 are the byte-swapped low 32 bits of
  the MAC-low register, each half as it lies in little-endian memory. So the address is
  the masked high half, most significant byte first, followed by the low word, most
  significant byte first.
\<close>

theorem mac_assembly:
  assumes "length mac = 6"
  shows "fst (lre_attach_mac P E sc mac) =
     (let lo = (ucast (bus_read_8 E (trace sc) (MACLO_OFFSET P)) :: 32 word);
          hi = (ucast (bus_read_8 E
                   (trace sc @ [RegRead (MACLO_OFFSET P) (bus_read_8 E (trace sc) (MACLO_OFFSET P))])
                   (MACHI_OFFSET P) AND ucast (MACHI_MACADDR_MASK P)) :: 16 word)
      in take 2 (le_bytes (ucast (bswap16 hi))) @ le_bytes (bswap32 lo)) \<and>
    fst (lre_attach_mac P E sc mac) =
     (let lo = (ucast (bus_read_8 E (trace sc) (MACLO_OFFSET P)) :: 32 word);
          hi = (ucast (bus_read_8 E
                   (trace sc @ [RegRead (MACLO_OFFSET P) (bus_read_8 E (trace sc) (MACLO_OFFSET P))])
                   (MACHI_OFFSET P) AND ucast (MACHI_MACADDR_MASK P)) :: 16 word)
      in [ucast (drop_bit 8 hi), ucast hi,
          ucast (drop_bit 24 lo), ucast (drop_bit 16 lo), ucast (drop_bit 8 lo), ucast lo])"
proof -
  from assms obtain a b c d e f where mac: "mac = [a, b, c, d, e, f]"
    by (rule list6)
  define lo64 where "lo64 = bus_read_8 E (trace sc) (MACLO_OFFSET P)"
  define hi64 where "hi64 = bus_read_8 E (trace sc @ [RegRead (MACLO_OFFSET P) lo64]) (MACHI_OFFSET P)"
  have "fst (lre_attach_mac P E sc mac) =
      memcpy (memcpy mac 2 (le_bytes (bswap32 (ucast lo64))) 4) 0
        (le_bytes (ucast (bswap16 (ucast (hi64 AND ucast (MACHI_MACADDR_MASK P)))))) 2"
    by (simp add: lre_attach_mac_def GETREG_def emit_def Let_def lo64_def hi64_def)
  also have "\<dots> = take 2 (le_bytes (ucast (bswap16 (ucast (hi64 AND ucast (MACHI_MACADDR_MASK P)))))) @
      le_bytes (bswap32 (ucast lo64))"
    by (simp add: memcpy_def mac le_bytes_bswap32)
  finally have m: "fst (lre_attach_mac P E sc mac) =
      take 2 (le_bytes (ucast (bswap16 (ucast (hi64 AND ucast (MACHI_MACADDR_MASK P)))))) @
      le_bytes (bswap32 (ucast lo64))" .
  have "fst (lre_attach_mac P E sc mac) =
      [ucast (drop_bit 8 (ucast (hi64 AND ucast (MACHI_MACADDR_MASK P)) :: 16 word)),
       ucast (ucast (hi64 AND ucast (MACHI_MACADDR_MASK P)) :: 16 word),
       ucast (drop_bit 24 (ucast lo64 :: 32 word)), ucast (drop_bit 16 (ucast lo64 :: 32 word)),
       ucast (drop_bit 8 (ucast lo64 :: 32 word)), ucast (ucast lo64 :: 32 word)]"
    unfolding m by (simp only: le_bytes_bswap16 le_bytes_bswap32) simp
  with m show ?thesis
    by (simp only: Let_def lo64_def hi64_def)
qed

theorem mac_assembly_witness:
  "length (replicate 6 (0 :: 8 word)) = 6 \<and>
   fst (lre_attach_mac lowrisc
     \<lparr>bus_read_8 = (\<lambda>h off. if off = 0x800 then 0x33445566 else 0x11122), m_getcl = (\<lambda>h. None)\<rparr>
     sc0 (replicate 6 0)) = [0x11, 0x22, 0x33, 0x44, 0x55, 0x66]"
proof -
  have h: "length (replicate 6 (0 :: 8 word)) = 6" by simp
  from mac_assembly [OF h, THEN conjunct2] h show ?thesis
    by (simp add: lowrisc_def sc0_def Let_def)
qed

subsection \<open>C9: \<^verbatim>\<open>lre_init\<close> run twice\<close>

text \<open>
  C9: \<^verbatim>\<open>lre_init\<close> is idempotent. From every state, a second run in succession leaves the
  driver flags, the capability flags and the counters as the first run left them. Every
  run leaves \<^verbatim>\<open>IFF_DRV_RUNNING\<close> set and the capability flags at \<^verbatim>\<open>IFCAP_RXCSUM\<close>; in
  interrupt mode it reads the control register and writes it back with the interrupt
  enable bit set, and in polling mode it touches no register. The contents of the control
  register are those of its last write: when the device reads the register back as the
  first run wrote it, the second run writes the same value again.
\<close>

theorem init_idempotent:
  fixes P E sc
  defines "sc1 \<equiv> lre_init P E sc"
    and "sc2 \<equiv> lre_init P E (lre_init P E sc)"
    and "w1 \<equiv> ucast (MACHI_IRQ_EN P) OR
      bus_read_8 E (trace sc @ [DevPrintf ''lre_init called\<newline>'']) (MACHI_OFFSET P)"
  shows
    "if_drv_flags sc2 = if_drv_flags sc1 \<and> sc_cap sc2 = sc_cap sc1 \<and>
     if_counters sc2 = if_counters sc1 \<and>
     if_drv_flags sc1 AND IFF_DRV_RUNNING P = IFF_DRV_RUNNING P \<and>
     sc_cap sc1 = IFCAP_RXCSUM P \<and>
     (LOWRISC_NET_POLL P \<longrightarrow>
        trace sc1 = trace sc @ [DevPrintf ''lre_init called\<newline>'']) \<and>
     (\<not> LOWRISC_NET_POLL P \<longrightarrow>
        trace sc1 = trace sc @
          [DevPrintf ''lre_init called\<newline>'',
           RegRead (MACHI_OFFSET P)
             (bus_read_8 E (trace sc @ [DevPrintf ''lre_init called\<newline>'']) (MACHI_OFFSET P)),
           RegWrite (MACHI_OFFSET P) w1] \<and>
        last_write (MACHI_OFFSET P) (trace sc1) = Some w1 \<and>
        w1 AND ucast (MACHI_IRQ_EN P) = ucast (MACHI_IRQ_EN P) \<and>
        (reads_back E (MACHI_OFFSET P) (trace sc1 @ [DevPrintf ''lre_init called\<newline>'']) \<longrightarrow>
           last_write (MACHI_OFFSET P) (trace sc2) = Some w1))"
proof -
  have run: "if_drv_flags (lre_init P E s) AND IFF_DRV_RUNNING P = IFF_DRV_RUNNING P" for s
    by (simp add: lre_init_def Let_def device_printf_def emit_def GETREG_def SETREG_def
        split: prod.splits)
  have fl: "if_drv_flags (lre_init P E s) = if_drv_flags s OR IFF_DRV_RUNNING P" for s
    by (simp add: lre_init_def Let_def device_printf_def emit_def GETREG_def SETREG_def
        and_not_or_self split: prod.splits)
  have cap: "sc_cap (lre_init P E s) = IFCAP_RXCSUM P" for s
    by (simp add: lre_init_def Let_def device_printf_def emit_def GETREG_def SETREG_def
        split: prod.splits)
  have cnt: "if_counters (lre_init P E s) = if_counters s" for s
    by (simp add: lre_init_def Let_def device_printf_def emit_def GETREG_def SETREG_def
        split: prod.splits)
  have trp: "LOWRISC_NET_POLL P \<Longrightarrow>
      trace (lre_init P E s) = trace s @ [DevPrintf ''lre_init called\<newline>'']" for s
    by (simp add: lre_init_def Let_def device_printf_def emit_def)
  have tri: "\<not> LOWRISC_NET_POLL P \<Longrightarrow>
      trace (lre_init P E s) = trace s @
          [DevPrintf ''lre_init called\<newline>'',
           RegRead (MACHI_OFFSET P)
             (bus_read_8 E (trace s @ [DevPrintf ''lre_init called\<newline>'']) (MACHI_OFFSET P)),
           RegWrite (MACHI_OFFSET P) (ucast (MACHI_IRQ_EN P) OR
             bus_read_8 E (trace s @ [DevPrintf ''lre_init called\<newline>'']) (MACHI_OFFSET P))]" for s
    by (simp add: lre_init_def Let_def device_printf_def emit_def GETREG_def SETREG_def)
  have f2: "if_drv_flags sc2 = if_drv_flags sc1"
    unfolding sc1_def sc2_def fl by (rule bit_word_eqI) (auto simp: bit_simps)
  have lw: "\<not> LOWRISC_NET_POLL P \<Longrightarrow> last_write (MACHI_OFFSET P) (trace sc1) = Some w1"
    unfolding sc1_def w1_def using last_write_snoc(1) [of "MACHI_OFFSET P"
        "trace sc @ [DevPrintf ''lre_init called\<newline>'', RegRead (MACHI_OFFSET P)
             (bus_read_8 E (trace sc @ [DevPrintf ''lre_init called\<newline>'']) (MACHI_OFFSET P))]"]
    by (simp add: tri)
  have bit: "w1 AND ucast (MACHI_IRQ_EN P) = ucast (MACHI_IRQ_EN P)"
    unfolding w1_def by (rule bit_word_eqI) (auto simp: bit_simps)
  have rb: "last_write (MACHI_OFFSET P) (trace sc2) = Some w1"
    if np: "\<not> LOWRISC_NET_POLL P"
      and r: "reads_back E (MACHI_OFFSET P) (trace sc1 @ [DevPrintf ''lre_init called\<newline>''])"
  proof -
    have "last_write (MACHI_OFFSET P) (trace sc1 @ [DevPrintf ''lre_init called\<newline>'']) = Some w1"
      using lw [OF np] by (simp add: last_write_snoc)
    with r have v: "bus_read_8 E (trace sc1 @ [DevPrintf ''lre_init called\<newline>''])
        (MACHI_OFFSET P) = w1"
      by (simp add: reads_back_def)
    have "trace sc2 = trace sc1 @
          [DevPrintf ''lre_init called\<newline>'', RegRead (MACHI_OFFSET P) w1,
           RegWrite (MACHI_OFFSET P) (ucast (MACHI_IRQ_EN P) OR w1)]"
      unfolding sc2_def using tri [OF np, of "lre_init P E sc"] v
      by (simp add: sc1_def)
    moreover have "ucast (MACHI_IRQ_EN P) OR w1 = w1"
      unfolding w1_def by (rule bit_word_eqI) (auto simp: bit_simps)
    ultimately have "trace sc2 = (trace sc1 @
          [DevPrintf ''lre_init called\<newline>'', RegRead (MACHI_OFFSET P) w1]) @
           [RegWrite (MACHI_OFFSET P) w1]"
      by simp
    then show ?thesis by (simp only: last_write_snoc(1))
  qed
  show ?thesis
    using f2 cap [of sc] cap [of "lre_init P E sc"] cnt [of sc] cnt [of "lre_init P E sc"]
      run [of sc] trp [of sc] tri [of sc] lw bit rb
    unfolding sc1_def sc2_def w1_def by simp
qed

theorem init_idempotent_witness:
  "\<not> LOWRISC_NET_POLL lowrisc \<and>
   reads_back (test_dev 0 0 None) (MACHI_OFFSET lowrisc)
     (trace (lre_init lowrisc (test_dev 0 0 None) (sc0\<lparr>if_drv_flags := 0, sc_cap := 0\<rparr>)) @
      [DevPrintf ''lre_init called\<newline>'']) \<and>
   if_drv_flags (lre_init lowrisc (test_dev 0 0 None) (sc0\<lparr>if_drv_flags := 0, sc_cap := 0\<rparr>)) = 0x40 \<and>
   if_drv_flags (lre_init lowrisc (test_dev 0 0 None)
     (lre_init lowrisc (test_dev 0 0 None) (sc0\<lparr>if_drv_flags := 0, sc_cap := 0\<rparr>))) = 0x40 \<and>
   sc_cap (lre_init lowrisc (test_dev 0 0 None)
     (lre_init lowrisc (test_dev 0 0 None) (sc0\<lparr>if_drv_flags := 0, sc_cap := 0\<rparr>))) = 1 \<and>
   last_write 0x808
     (trace (lre_init lowrisc (test_dev 0 0 None) (sc0\<lparr>if_drv_flags := 0, sc_cap := 0\<rparr>))) =
     Some 0x802301 \<and>
   last_write 0x808
     (trace (lre_init lowrisc (test_dev 0 0 None)
       (lre_init lowrisc (test_dev 0 0 None) (sc0\<lparr>if_drv_flags := 0, sc_cap := 0\<rparr>)))) =
     Some 0x802301"
proof -
  let ?E = "test_dev 0 0 None"
  let ?sc = "sc0\<lparr>if_drv_flags := 0, sc_cap := 0\<rparr>"
  have np: "\<not> LOWRISC_NET_POLL lowrisc" by (simp add: lowrisc_def)
  have tr: "trace (lre_init lowrisc ?E ?sc) =
      [DevPrintf ''lre_init called\<newline>'', RegRead 0x808 0x2301, RegWrite 0x808 0x802301]"
    by (simp add: lre_init_def Let_def device_printf_def emit_def GETREG_def SETREG_def
        lowrisc_def test_dev_def sc0_def)
  have rb: "reads_back ?E (MACHI_OFFSET lowrisc)
      (trace (lre_init lowrisc ?E ?sc) @ [DevPrintf ''lre_init called\<newline>''])"
    unfolding tr by (simp add: reads_back_def lowrisc_def test_dev_def)
  have w: "ucast (MACHI_IRQ_EN lowrisc) OR
      bus_read_8 ?E (trace ?sc @ [DevPrintf ''lre_init called\<newline>'']) (MACHI_OFFSET lowrisc) =
      0x802301"
    by (simp add: lowrisc_def test_dev_def sc0_def)
  from init_idempotent [of lowrisc ?E ?sc] np rb
  have "if_drv_flags (lre_init lowrisc ?E (lre_init lowrisc ?E ?sc)) =
          if_drv_flags (lre_init lowrisc ?E ?sc) \<and>
        sc_cap (lre_init lowrisc ?E (lre_init lowrisc ?E ?sc)) =
          sc_cap (lre_init lowrisc ?E ?sc) \<and>
        if_drv_flags (lre_init lowrisc ?E ?sc) AND IFF_DRV_RUNNING lowrisc =
          IFF_DRV_RUNNING lowrisc \<and>
        sc_cap (lre_init lowrisc ?E ?sc) = IFCAP_RXCSUM lowrisc \<and>
        last_write (MACHI_OFFSET lowrisc) (trace (lre_init lowrisc ?E ?sc)) = Some 0x802301 \<and>
        last_write (MACHI_OFFSET lowrisc)
          (trace (lre_init lowrisc ?E (lre_init lowrisc ?E ?sc))) = Some 0x802301"
    unfolding w by blast
  moreover have "if_drv_flags (lre_init lowrisc ?E ?sc) = 0x40"
    by (simp add: lre_init_def Let_def device_printf_def emit_def GETREG_def SETREG_def
        lowrisc_def sc0_def split: prod.splits)
  ultimately show ?thesis
    using np rb by (simp add: lowrisc_def)
qed

subsection \<open>C10: lengths below the checksum trailer\<close>

text \<open>
  C10: let the receive-checksum capability flag be set. When the masked hardware length
  of the slot is less than 4, the subtraction of the 4-byte trailer wraps around modulo
  \<open>2 ^ 32\<close>; with a ceiling \<open>MCLBYTES - ETHER_ALIGN\<close> below \<open>2 ^ 32 - 4\<close> (the kernel's is
  2046) the resulting length exceeds the ceiling and the pass takes the discard path: the
  input-error counter is incremented and the ring is advanced, and nothing is copied. When
  the masked hardware length is exactly 4, the validated length is 0 and passes the length
  test; if no error bit of the slot is set and a buffer is allocated, the pass reads no
  word of the receive window and hands a frame of length 0 to the input routine.
\<close>

theorem rx_trailer_underflow:
  assumes "sc_cap sc AND IFCAP_RXCSUM P \<noteq> 0"
  shows
    "(rx_masked_length P E sc status < 4 \<and> MCLBYTES P - ETHER_ALIGN P < 0xFFFFFFFC \<longrightarrow>
        unat (rx_length P E sc status) = unat (rx_masked_length P E sc status) + 2 ^ 32 - 4 \<and>
        MCLBYTES P - ETHER_ALIGN P < rx_length P E sc status \<and>
        (\<exists>sc' s.
           rx_body P E sc status = Discarded sc' (ucast s) \<and>
           trace sc' = trace sc @ rx_header P E sc status @
             [DevPrintf ''Receive discarded\<newline>'',
              RegWrite (RSR_OFFSET P) (ucast (rx_buf P status + 1)),
              RegRead (RSR_OFFSET P) s] \<and>
           if_counters sc' =
             (if_counters sc)(IFCOUNTER_IERRORS := if_counters sc IFCOUNTER_IERRORS + 1))) \<and>
     (rx_masked_length P E sc status = 4 \<longrightarrow>
        rx_length P E sc status = 0 \<and>
        \<not> MCLBYTES P - ETHER_ALIGN P < rx_length P E sc status \<and>
        (push_bit (unat (rx_buf P status AND 7)) 0x101 AND rx_errs P E sc = 0 \<and>
         m_getcl E (trace sc @ rx_header P E sc status) = Some m0 \<longrightarrow>
           (\<exists>sc' s.
              rx_body P E sc status = Delivered sc' (ucast s) \<and>
              trace sc' = trace sc @ rx_header P E sc status @
                [Getcl True,
                 RegWrite (RSR_OFFSET P) (ucast (rx_buf P status + 1)),
                 IfInput (m0\<lparr>m_data := m_data m0 + unat (ETHER_ALIGN P),
                              m_pkthdr_rcvif := SC_ifp, m_len := 0, m_pkthdr_len := 0\<rparr>),
                 RegRead (RSR_OFFSET P) s])))"
proof (intro conjI impI)
  let ?M = "rx_masked_length P E sc status"
  let ?L = "rx_length P E sc status"
  have L: "?L = ?M - 4" using assms by (simp add: rx_length_def)
  {
    assume a: "?M < 4 \<and> MCLBYTES P - ETHER_ALIGN P < 0xFFFFFFFC"
    show u: "unat ?L = unat ?M + 2 ^ 32 - 4"
      unfolding L using a by (simp add: sub4_wraps(1))
    show gt: "MCLBYTES P - ETHER_ALIGN P < ?L"
      unfolding L using a by (simp add: sub4_wraps(2))
    then have d: "rx_discard P ?L (rx_buf P status) (rx_errs P E sc)"
      by (simp add: rx_discard_def)
    define s where "s = bus_read_8 E (trace sc @ rx_header P E sc status @
        [DevPrintf ''Receive discarded\<newline>'',
         RegWrite (RSR_OFFSET P) (ucast (rx_buf P status + 1))]) (RSR_OFFSET P)"
    show "\<exists>sc' s.
           rx_body P E sc status = Discarded sc' (ucast s) \<and>
           trace sc' = trace sc @ rx_header P E sc status @
             [DevPrintf ''Receive discarded\<newline>'',
              RegWrite (RSR_OFFSET P) (ucast (rx_buf P status + 1)),
              RegRead (RSR_OFFSET P) s] \<and>
           if_counters sc' =
             (if_counters sc)(IFCOUNTER_IERRORS := if_counters sc IFCOUNTER_IERRORS + 1)"
      unfolding rx_body_discarded [OF d] by (intro exI conjI, rule refl) simp_all
  }
  {
    assume b: "?M = 4"
    show z: "?L = 0" unfolding L using b by simp
    show "\<not> MCLBYTES P - ETHER_ALIGN P < ?L" by (simp add: z)
    assume c: "push_bit (unat (rx_buf P status AND 7)) 0x101 AND rx_errs P E sc = 0 \<and>
         m_getcl E (trace sc @ rx_header P E sc status) = Some m0"
    then have d: "\<not> rx_discard P ?L (rx_buf P status) (rx_errs P E sc)"
      by (simp add: rx_discard_def z)
    from c have g: "m_getcl E (trace sc @ rx_header P E sc status) = Some m0" by simp
    have cp: "rx_copy E start 0 0 sc1 m1 = (sc1, m1)" for start sc1 m1
      by (simp add: rx_copy.simps [of E start 0 0 sc1 m1])
    define s where "s = bus_read_8 E (trace sc @ rx_header P E sc status @
        [Getcl True,
         RegWrite (RSR_OFFSET P) (ucast (rx_buf P status + 1)),
         IfInput (m0\<lparr>m_data := m_data m0 + unat (ETHER_ALIGN P),
                      m_pkthdr_rcvif := SC_ifp, m_len := 0, m_pkthdr_len := 0\<rparr>)])
        (RSR_OFFSET P)"
    define sc' where "sc' = sc\<lparr>if_counters := (if_counters sc)
               (IFCOUNTER_IPACKETS := if_counters sc IFCOUNTER_IPACKETS + 1),
            trace := trace sc @ rx_header P E sc status @
                [Getcl True,
                 RegWrite (RSR_OFFSET P) (ucast (rx_buf P status + 1)),
                 IfInput (m0\<lparr>m_data := m_data m0 + unat (ETHER_ALIGN P),
                              m_pkthdr_rcvif := SC_ifp, m_len := 0, m_pkthdr_len := 0\<rparr>),
                 RegRead (RSR_OFFSET P) s]\<rparr>"
    have body: "rx_body P E sc status = Delivered sc' (ucast s)"
      unfolding rx_body_accepted_some [OF d g] z
      by (simp add: cp s_def sc'_def Let_def)
    have tr: "trace sc' = trace sc @ rx_header P E sc status @
                [Getcl True,
                 RegWrite (RSR_OFFSET P) (ucast (rx_buf P status + 1)),
                 IfInput (m0\<lparr>m_data := m_data m0 + unat (ETHER_ALIGN P),
                              m_pkthdr_rcvif := SC_ifp, m_len := 0, m_pkthdr_len := 0\<rparr>),
                 RegRead (RSR_OFFSET P) s]"
      by (simp add: sc'_def)
    from body tr show "\<exists>sc' s.
              rx_body P E sc status = Delivered sc' (ucast s) \<and>
              trace sc' = trace sc @ rx_header P E sc status @
                [Getcl True,
                 RegWrite (RSR_OFFSET P) (ucast (rx_buf P status + 1)),
                 IfInput (m0\<lparr>m_data := m_data m0 + unat (ETHER_ALIGN P),
                              m_pkthdr_rcvif := SC_ifp, m_len := 0, m_pkthdr_len := 0\<rparr>),
                 RegRead (RSR_OFFSET P) s]"
      by blast
  }
qed

theorem rx_trailer_underflow_witness:
  "sc_cap sc0 AND IFCAP_RXCSUM lowrisc \<noteq> 0 \<and>
   rx_masked_length lowrisc (test_dev 0 2 (Some mb0)) sc0 0x1003 < 4 \<and>
   MCLBYTES lowrisc - ETHER_ALIGN lowrisc < 0xFFFFFFFC \<and>
   rx_length lowrisc (test_dev 0 2 (Some mb0)) sc0 0x1003 = 0xFFFFFFFE \<and>
   (\<exists>sc' s. rx_body lowrisc (test_dev 0 2 (Some mb0)) sc0 0x1003 = Discarded sc' (ucast s) \<and>
      trace sc' = [RegRead 0x838 0, RegRead 0x858 2, DevPrintf ''Receive discarded\<newline>'',
        RegWrite 0x830 4, RegRead 0x830 s] \<and>
      if_counters sc' IFCOUNTER_IERRORS = 1) \<and>
   rx_masked_length lowrisc (test_dev 0 4 (Some mb0)) sc0 0x1003 = 4 \<and>
   push_bit (unat (rx_buf lowrisc 0x1003 AND 7)) 0x101 AND
     rx_errs lowrisc (test_dev 0 4 (Some mb0)) sc0 = 0 \<and>
   m_getcl (test_dev 0 4 (Some mb0))
     (trace sc0 @ rx_header lowrisc (test_dev 0 4 (Some mb0)) sc0 0x1003) = Some mb0 \<and>
   (\<exists>sc' s. rx_body lowrisc (test_dev 0 4 (Some mb0)) sc0 0x1003 = Delivered sc' (ucast s) \<and>
      trace sc' = [RegRead 0x838 0, RegRead 0x858 4, Getcl True, RegWrite 0x830 4,
        IfInput (mb0\<lparr>m_data := 2, m_pkthdr_rcvif := SC_ifp\<rparr>), RegRead 0x830 s])"
proof -
  let ?E2 = "test_dev 0 2 (Some mb0)"
  let ?E4 = "test_dev 0 4 (Some mb0)"
  have c: "sc_cap sc0 AND IFCAP_RXCSUM lowrisc \<noteq> 0"
    by (simp add: sc0_def lowrisc_def)
  have a1: "rx_masked_length lowrisc ?E2 sc0 0x1003 < 4"
    by (simp add: test_dev_header)
  have a2: "MCLBYTES lowrisc - ETHER_ALIGN lowrisc < 0xFFFFFFFC"
    by (simp add: lowrisc_def)
  have a3: "rx_length lowrisc ?E2 sc0 0x1003 = 0xFFFFFFFE"
    by (simp add: test_dev_length)
  have b1: "rx_masked_length lowrisc ?E4 sc0 0x1003 = 4"
    by (simp add: test_dev_header)
  have b2: "push_bit (unat (rx_buf lowrisc 0x1003 AND 7)) 0x101 AND rx_errs lowrisc ?E4 sc0 = 0"
    by (simp add: test_dev_header)
  have b3: "m_getcl ?E4 (trace sc0 @ rx_header lowrisc ?E4 sc0 0x1003) = Some mb0"
    by (simp add: test_dev_def)
  from rx_trailer_underflow [OF c, of ?E2 "0x1003" mb0] a1 a2
  obtain sc2 s2 where r2:
    "rx_body lowrisc ?E2 sc0 0x1003 = Discarded sc2 (ucast s2)"
    "trace sc2 = trace sc0 @ rx_header lowrisc ?E2 sc0 0x1003 @
             [DevPrintf ''Receive discarded\<newline>'',
              RegWrite (RSR_OFFSET lowrisc) (ucast (rx_buf lowrisc 0x1003 + 1)),
              RegRead (RSR_OFFSET lowrisc) s2]"
    "if_counters sc2 =
       (if_counters sc0)(IFCOUNTER_IERRORS := if_counters sc0 IFCOUNTER_IERRORS + 1)"
    by blast
  from rx_trailer_underflow [OF c, of ?E4 "0x1003" mb0] b1 b2 b3
  obtain sc4 s4 where r4:
    "rx_body lowrisc ?E4 sc0 0x1003 = Delivered sc4 (ucast s4)"
    "trace sc4 = trace sc0 @ rx_header lowrisc ?E4 sc0 0x1003 @
                [Getcl True,
                 RegWrite (RSR_OFFSET lowrisc) (ucast (rx_buf lowrisc 0x1003 + 1)),
                 IfInput (mb0\<lparr>m_data := m_data mb0 + unat (ETHER_ALIGN lowrisc),
                              m_pkthdr_rcvif := SC_ifp, m_len := 0, m_pkthdr_len := 0\<rparr>),
                 RegRead (RSR_OFFSET lowrisc) s4]"
    by blast
  have d2: "rx_body lowrisc ?E2 sc0 0x1003 = Discarded sc2 (ucast s2) \<and>
      trace sc2 = [RegRead 0x838 0, RegRead 0x858 2, DevPrintf ''Receive discarded\<newline>'',
        RegWrite 0x830 4, RegRead 0x830 s2] \<and>
      if_counters sc2 IFCOUNTER_IERRORS = 1"
    using r2 by (simp add: test_dev_header) (simp add: lowrisc_def sc0_def)
  have d4: "rx_body lowrisc ?E4 sc0 0x1003 = Delivered sc4 (ucast s4) \<and>
      trace sc4 = [RegRead 0x838 0, RegRead 0x858 4, Getcl True, RegWrite 0x830 4,
        IfInput (mb0\<lparr>m_data := 2, m_pkthdr_rcvif := SC_ifp\<rparr>), RegRead 0x830 s4]"
    using r4 by (simp add: test_dev_header) (simp add: lowrisc_def sc0_def mb0_def)
  from c a1 a2 a3 d2 b1 b2 b3 d4 show ?thesis by blast
qed

end
